(* ===== verification/Prelude.thy ===== *)
theory Prelude
  imports Main "HOL-Library.Word" "HOL-Library.Sublist" "HOL-Library.Multiset"
begin

text \<open>
  The shared vocabulary of the xport development: the machine types of the Go source
  (\<open>byte\<close>, \<open>uint16\<close>, \<open>uint32\<close>, \<open>uint64\<close>), Go strings as lists of bytes, the
  big-endian integer codec of \<^verbatim>\<open>encoding/binary\<close>, the few functions of the packages
  \<^verbatim>\<open>strings\<close>, \<^verbatim>\<open>strconv\<close> and \<^verbatim>\<open>encoding/hex\<close> that the program calls,
  and the generic list facts that the component theories rest on.
\<close>

unbundle bit_operations_syntax

type_synonym byte = "8 word"
type_synonym u16 = "16 word"
type_synonym u32 = "32 word"
type_synonym u64 = "64 word"

named_theorems codec \<open>round trips and lengths of the byte codecs\<close>

section \<open>Go strings and byte slices\<close>

text \<open>
  A Go string is an immutable sequence of bytes. It is a \<^typ>\<open>string\<close> here, a list of
  8-bit characters; \<open>[]byte(s)\<close> and \<open>string(b)\<close> convert it to and from a byte slice.
\<close>

definition byte_of :: "char \<Rightarrow> byte" where
  "byte_of c = word_of_nat (of_char c)"

definition char_of_byte :: "byte \<Rightarrow> char" where
  "char_of_byte b = char_of (unat b)"

definition bytes_of :: "string \<Rightarrow> byte list" where
  "bytes_of s = map byte_of s"

definition string_of :: "byte list \<Rightarrow> string" where
  "string_of bs = map char_of_byte bs"

lemma char_of_byte_of [codec, simp]: "char_of_byte (byte_of c) = c"
proof -
  have "of_char c < (256 :: nat)" by (simp add: of_char_def)
  then have "unat (word_of_nat (of_char c) :: byte) = of_char c"
    by (simp add: unat_of_nat take_bit_eq_mod)
  then show ?thesis by (simp add: char_of_byte_def byte_of_def)
qed

lemma byte_of_char_of_byte [codec, simp]: "byte_of (char_of_byte b) = b"
proof -
  have "unat b < 256" using unsigned_less [of b] by simp
  then show ?thesis by (simp add: char_of_byte_def byte_of_def)
qed

lemma string_of_bytes_of [codec, simp]: "string_of (bytes_of s) = s"
  by (simp add: string_of_def bytes_of_def comp_def)

lemma bytes_of_string_of [codec, simp]: "bytes_of (string_of bs) = bs"
  by (simp add: string_of_def bytes_of_def comp_def)

lemma length_bytes_of [codec, simp]: "length (bytes_of s) = length s"
  by (simp add: bytes_of_def)

lemma length_string_of [codec, simp]: "length (string_of bs) = length bs"
  by (simp add: string_of_def)

section \<open>Big-endian integers\<close>

definition PutUint16 :: "u16 \<Rightarrow> byte list" where
  "PutUint16 v = [ucast (drop_bit 8 v), ucast v]"

definition Uint16 :: "byte list \<Rightarrow> u16" where
  "Uint16 b = ucast (b ! 1) OR push_bit 8 (ucast (b ! 0))"

definition PutUint64 :: "u64 \<Rightarrow> byte list" where
  "PutUint64 v =
     [ucast (drop_bit 56 v), ucast (drop_bit 48 v), ucast (drop_bit 40 v), ucast (drop_bit 32 v),
      ucast (drop_bit 24 v), ucast (drop_bit 16 v), ucast (drop_bit 8 v), ucast v]"

definition Uint64 :: "byte list \<Rightarrow> u64" where
  "Uint64 b =
     ucast (b ! 7) OR push_bit 8 (ucast (b ! 6)) OR push_bit 16 (ucast (b ! 5)) OR
     push_bit 24 (ucast (b ! 4)) OR push_bit 32 (ucast (b ! 3)) OR push_bit 40 (ucast (b ! 2)) OR
     push_bit 48 (ucast (b ! 1)) OR push_bit 56 (ucast (b ! 0))"

lemma length_PutUint16 [codec, simp]: "length (PutUint16 v) = 2"
  by (simp add: PutUint16_def)

lemma length_PutUint64 [codec, simp]: "length (PutUint64 v) = 8"
  by (simp add: PutUint64_def)

lemma Uint16_PutUint16 [codec, simp]: "Uint16 (PutUint16 v) = v"
  unfolding Uint16_def PutUint16_def
  by (rule bit_word_eqI) (auto simp: bit_simps)

lemma ucast_byte_drop:
  fixes v :: u64
  shows "ucast (ucast (drop_bit k v) :: byte) = take_bit 8 (drop_bit k v)"
  by (rule bit_word_eqI) (auto simp: bit_simps)

lemma take_bit_next_byte:
  fixes v :: u64
  shows "take_bit k v OR push_bit k (take_bit 8 (drop_bit k v)) = take_bit (k + 8) v"
  by (rule bit_word_eqI) (auto simp: bit_simps)

lemma Uint64_PutUint64 [codec, simp]: "Uint64 (PutUint64 v) = v"
proof -
  have low: "ucast (ucast v :: byte) = take_bit 8 v"
    using ucast_byte_drop [of 0 v] by simp
  have all: "take_bit 64 v = v"
    by (rule bit_word_eqI) (auto simp: bit_simps)
  note chain = take_bit_next_byte [of 8 v] take_bit_next_byte [of 16 v] take_bit_next_byte [of 24 v]
    take_bit_next_byte [of 32 v] take_bit_next_byte [of 40 v] take_bit_next_byte [of 48 v]
    take_bit_next_byte [of 56 v]
  show ?thesis
    using chain all by (simp add: Uint64_def PutUint64_def ucast_byte_drop low flip: or.assoc)
qed

text \<open>
  Conversely every slice of the right length is the encoding of the number it decodes to: the
  encoding is injective and there are as many numbers as slices.
\<close>

lemma codec_onto:
  fixes put :: "'a::len word \<Rightarrow> byte list"
  assumes inj: "\<And>v. get (put v) = v" and len: "\<And>v. length (put v) = k" and k: "LENGTH('a) = 8 * k"
    and b: "length b = k"
  shows "put (get b) = b"
proof -
  have fin: "finite {b :: byte list. length b = k}"
    using finite_lists_length_eq [of "UNIV :: byte set" k] by simp
  have "card (range put) = CARD('a word)"
    by (rule card_image) (metis inj injI)
  also have "\<dots> = card {b :: byte list. length b = k}"
    using card_lists_length_eq [of "UNIV :: byte set" k] k by (simp add: card_word power_mult)
  finally have "range put = {b. length b = k}"
    using fin len by (intro card_subset_eq) auto
  with b obtain v where "b = put v" by blast
  then show ?thesis by (simp add: inj)
qed

lemma PutUint16_Uint16 [codec]: "length b = 2 \<Longrightarrow> PutUint16 (Uint16 b) = b"
  by (rule codec_onto [where k = 2]) simp_all

lemma PutUint64_Uint64 [codec]: "length b = 8 \<Longrightarrow> PutUint64 (Uint64 b) = b"
  by (rule codec_onto [where k = 8]) simp_all

section \<open>Lists\<close>

lemma list_ex_False [simp]: "\<not> list_ex (\<lambda>_. False) xs"
  by (induction xs) simp_all

section \<open>Strings\<close>

text \<open>\<^verbatim>\<open>strings.HasPrefix\<close>, \<^verbatim>\<open>strings.HasSuffix\<close> and \<^verbatim>\<open>strings.Contains\<close>
  of a one-character string.\<close>

definition HasPrefix :: "string \<Rightarrow> string \<Rightarrow> bool" where
  "HasPrefix s p = (take (length p) s = p)"

definition HasSuffix :: "string \<Rightarrow> string \<Rightarrow> bool" where
  "HasSuffix s p = (length p \<le> length s \<and> drop (length s - length p) s = p)"

lemma HasPrefix_append [simp]: "HasPrefix (p @ s) p"
  by (simp add: HasPrefix_def)

lemma HasSuffix_append [simp]: "HasSuffix (s @ p) p"
  by (simp add: HasSuffix_def)

lemma HasSuffix_iff: "HasSuffix s p \<longleftrightarrow> (\<exists>u. s = u @ p)"
  by (auto simp: HasSuffix_def) (metis append_take_drop_id)

text \<open>The decimal rendering of \<^verbatim>\<open>%d\<close>.\<close>

fun itoa :: "nat \<Rightarrow> string" where
  "itoa n = (if n < 10 then [char_of (48 + n)] else itoa (n div 10) @ [char_of (48 + n mod 10)])"

declare itoa.simps [simp del]

text \<open>\<^verbatim>\<open>hex.EncodeToString\<close>: two lower-case digits for every byte.\<close>

definition hex_digit :: "nat \<Rightarrow> char" where
  "hex_digit n = (if n < 10 then char_of (48 + n) else char_of (87 + n))"

definition EncodeToString :: "byte list \<Rightarrow> string" where
  "EncodeToString bs = concat (map (\<lambda>b. [hex_digit (unat b div 16), hex_digit (unat b mod 16)]) bs)"

lemma length_EncodeToString [codec, simp]: "length (EncodeToString bs) = 2 * length bs"
  by (induction bs) (simp_all add: EncodeToString_def)

lemma hex_digit_inj: "m < 16 \<Longrightarrow> n < 16 \<Longrightarrow> hex_digit m = hex_digit n \<Longrightarrow> m = n"
proof -
  assume m: "m < 16" and n: "n < 16" and eq: "hex_digit m = hex_digit n"
  have code: "of_char (hex_digit k) = (if k < 10 then 48 + k else 87 + k)" if "k < 16" for k :: nat
    using that by (simp add: hex_digit_def)
  from eq have "(of_char (hex_digit m) :: nat) = of_char (hex_digit n)" by simp
  with m n show "m = n" by (simp add: code split: if_splits)
qed

lemma unat_byte_less: "unat (z :: byte) < 256"
proof -
  have "unat z < 2 ^ LENGTH(8)" by (rule unsigned_less)
  then show ?thesis by simp
qed

lemma EncodeToString_inj: "EncodeToString a = EncodeToString b \<longleftrightarrow> a = b"
proof
  show "EncodeToString a = EncodeToString b \<Longrightarrow> a = b"
  proof (induction a arbitrary: b)
    case Nil
    then show ?case by (cases b) (simp_all add: EncodeToString_def)
  next
    case (Cons x a)
    then obtain y c where b: "b = y # c" by (cases b) (auto simp: EncodeToString_def)
    have lt: "unat z div 16 < 16" "unat z mod 16 < 16" for z :: byte
      using unat_byte_less [of z] by simp_all
    from Cons.prems b have "unat x div 16 = unat y div 16" "unat x mod 16 = unat y mod 16"
      and "EncodeToString a = EncodeToString c"
      by (auto simp: EncodeToString_def intro!: hex_digit_inj lt)
    then show ?case using Cons.IH b by (metis div_mult_mod_eq word_unat_eq_iff)
  qed
qed simp

lemma option_eqI: "(\<And>i. a = Some i \<longleftrightarrow> b = Some i) \<Longrightarrow> a = b"
  by (cases a; cases b) auto

text \<open>Times and durations are nanoseconds; this is \<^verbatim>\<open>time.Second\<close>.\<close>

definition second :: int where "second = 1000000000"

end
