(* ===== verification/Go_IO.thy ===== *)
theory Go_IO
  imports Prelude
begin

text \<open>
  What the program uses of Go's \<^verbatim>\<open>errors\<close>, \<^verbatim>\<open>fmt\<close> and \<^verbatim>\<open>io\<close>
  packages: error values with their wrapping chain, readers and writers as functions on an
  explicit state, the loops \<^verbatim>\<open>io.ReadFull\<close> and \<^verbatim>\<open>io.CopyBuffer\<close>, and the
  reader adapters \<^verbatim>\<open>io.LimitReader\<close> and \<^verbatim>\<open>io.TeeReader\<close>. The loops are partial
  functions into \<open>option\<close>, \<open>None\<close> meaning that the call does not return: a reader may
  return no data and no error for ever. The locale \<open>go_reader\<close> states the contract of a
  well-behaved reader over the byte stream it delivers; inside it the loops are shown to return,
  with results that do not depend on how the stream is cut into reads.
\<close>

section \<open>Error values\<close>

text \<open>
  \<open>New m\<close> is \<^verbatim>\<open>errors.New(m)\<close> or \<^verbatim>\<open>fmt.Errorf\<close> without \<^verbatim>\<open>%w\<close>,
  \<open>Wrap p e s\<close> is \<^verbatim>\<open>fmt.Errorf\<close> with the text \<open>p\<close> before and \<open>s\<close> after
  the wrapped error \<open>e\<close>. The sentinels of the program have distinct texts, so a sentinel is
  identified by its text.
\<close>

datatype error =
    EOF
  | ErrUnexpectedEOF
  | ErrShortWrite
  | errInvalidWrite
  | ErrClosed
  | ErrDeadlineExceeded
  | New string
  | Wrap string error string

fun Error :: "error \<Rightarrow> string" where
  "Error EOF = ''EOF''"
| "Error ErrUnexpectedEOF = ''unexpected EOF''"
| "Error ErrShortWrite = ''short write''"
| "Error errInvalidWrite = ''invalid write result''"
| "Error ErrClosed = ''use of closed network connection''"
| "Error ErrDeadlineExceeded = ''i/o timeout''"
| "Error (New m) = m"
| "Error (Wrap p e s) = p @ Error e @ s"

text \<open>\<^verbatim>\<open>errors.Is\<close> looks for the target along the chain of wrapped errors.\<close>

fun errors_Is :: "error \<Rightarrow> error \<Rightarrow> bool" where
  "errors_Is (Wrap p e s) t = (Wrap p e s = t \<or> errors_Is e t)"
| "errors_Is e t = (e = t)"

text \<open>
  \<^verbatim>\<open>errors.As(err, &netErr) && netErr.Timeout()\<close>: the chain holds the deadline error.
\<close>

definition is_timeout :: "error \<Rightarrow> bool" where
  "is_timeout e = errors_Is e ErrDeadlineExceeded"

section \<open>Readers\<close>

text \<open>
  \<open>rd s n\<close> is \<^verbatim>\<open>r.Read(p)\<close> with \<open>len(p) = n\<close> in state \<open>s\<close>: the bytes
  stored in \<open>p\<close>, the error and the next state.
\<close>

type_synonym 's reader = "'s \<Rightarrow> nat \<Rightarrow> byte list \<times> error option \<times> 's"

partial_function (option) ReadAtLeast ::
  "'s reader \<Rightarrow> nat \<Rightarrow> 's \<Rightarrow> byte list \<Rightarrow> (byte list \<times> error option \<times> 's) option"
where
  "ReadAtLeast rd n s acc =
     (if length acc < n then
        (case rd s (n - length acc) of
           (d, None, s') \<Rightarrow> ReadAtLeast rd n s' (acc @ d)
         | (d, Some e, s') \<Rightarrow> Some (acc @ d, Some e, s'))
      else Some (acc, None, s))"

text \<open>
  \<^verbatim>\<open>io.ReadFull\<close>: the error is dropped when the buffer is full, and an \<^const>\<open>EOF\<close>
  after some bytes becomes \<^const>\<open>ErrUnexpectedEOF\<close>.
\<close>

definition ReadFull :: "'s reader \<Rightarrow> 's \<Rightarrow> nat \<Rightarrow> (byte list \<times> error option \<times> 's) option" where
  "ReadFull rd s n =
     (case ReadAtLeast rd n s [] of
        None \<Rightarrow> None
      | Some (d, e, s') \<Rightarrow>
          Some (d,
            (if n \<le> length d then None
             else if d \<noteq> [] \<and> e = Some EOF then Some ErrUnexpectedEOF
             else e), s'))"

text \<open>The adapters: the remaining limit, and the bytes the hash has absorbed, join the state.\<close>

definition LimitReader :: "'s reader \<Rightarrow> ('s \<times> int) reader" where
  "LimitReader rd = (\<lambda>(s, N) n.
     if N \<le> 0 then ([], Some EOF, (s, N))
     else (case rd s (if int n > N then nat N else n) of
             (d, e, s') \<Rightarrow> (d, e, (s', N - int (length d)))))"

definition TeeReader :: "'s reader \<Rightarrow> ('s \<times> byte list) reader" where
  "TeeReader rd = (\<lambda>(s, h) n. case rd s n of (d, e, s') \<Rightarrow> (d, e, (s', h @ d)))"

section \<open>Writers and the copy loop\<close>

text \<open>\<open>wr w b\<close> is \<^verbatim>\<open>w.Write(b)\<close>: the count, the error and the next state.\<close>

type_synonym 'w writer = "'w \<Rightarrow> byte list \<Rightarrow> nat \<times> error option \<times> 'w"

text \<open>
  The body of the loop of \<^verbatim>\<open>io.CopyBuffer\<close> after a read of \<open>d\<close> with error \<open>er\<close>:
  the bytes written so far, \<open>Some r\<close> when the loop breaks with result error \<open>r\<close>, and the
  writer. An \<^const>\<open>EOF\<close> from the reader ends the copy without an error.
\<close>

definition end_error :: "error \<Rightarrow> error option" where
  "end_error e = (if e = EOF then None else Some e)"

definition copy_chunk ::
  "'w writer \<Rightarrow> byte list \<Rightarrow> error option \<Rightarrow> nat \<Rightarrow> 'w \<Rightarrow> nat \<times> error option option \<times> 'w"
where
  "copy_chunk wr d er written w =
     (let after = map_option end_error er
      in if d = [] then (written, after, w)
         else (case wr w d of (n, ew, w') \<Rightarrow>
           (let bad = length d < n;
                nw = (if bad then 0 else n);
                ew' = (if bad \<and> ew = None then Some errInvalidWrite else ew)
            in if ew' \<noteq> None then (written + nw, Some ew', w')
               else if length d \<noteq> nw then (written + nw, Some (Some ErrShortWrite), w')
               else (written + nw, after, w'))))"

partial_function (option) CopyBuffer ::
  "'s reader \<Rightarrow> 'w writer \<Rightarrow> nat \<Rightarrow> nat \<Rightarrow> 's \<Rightarrow> 'w \<Rightarrow> (nat \<times> error option \<times> 's \<times> 'w) option"
where
  "CopyBuffer rd wr buf written s w =
     (case rd s buf of (d, er, s') \<Rightarrow>
        (case copy_chunk wr d er written w of
           (written', Some res, w') \<Rightarrow> Some (written', res, s', w')
         | (written', None, w') \<Rightarrow> CopyBuffer rd wr buf written' s' w'))"

section \<open>The reader contract\<close>

text \<open>
  \<open>stream s\<close> is what a client that keeps reading from \<open>s\<close> will get: the bytes, and the error
  that ends them. \<open>frame s\<close> is the part of the state that reading leaves alone.
\<close>

locale go_reader =
  fixes rd :: "'s reader"
    and stream :: "'s \<Rightarrow> byte list \<times> error"
    and rank :: "'s \<Rightarrow> nat"
    and frame :: "'s \<Rightarrow> 'f"
  assumes read_data: "0 < n \<Longrightarrow> rd s n = (d, None, s') \<Longrightarrow>
      length d \<le> n \<and> rank s' < rank s \<and> stream s = (d @ fst (stream s'), snd (stream s'))"
    and read_fail: "0 < n \<Longrightarrow> rd s n = (d, Some e, s') \<Longrightarrow>
      d = [] \<and> stream s = ([], e) \<and> (e = EOF \<longrightarrow> stream s' = stream s)"
    and read_frame: "rd s n = (d, r, s') \<Longrightarrow> frame s' = frame s"
begin

lemma ReadAtLeast_spec:
  assumes "length acc \<le> n"
  shows "\<exists>s'. ReadAtLeast rd n s acc =
      Some (if n \<le> length acc + length (fst (stream s))
            then (acc @ take (n - length acc) (fst (stream s)), None, s')
            else (acc @ fst (stream s), Some (snd (stream s)), s'))
    \<and> frame s' = frame s
    \<and> (n \<le> length acc + length (fst (stream s)) \<longrightarrow>
        stream s' = (drop (n - length acc) (fst (stream s)), snd (stream s)))"
  using assms
proof (induction "rank s" arbitrary: s acc rule: less_induct)
  case less
  show ?case
  proof (cases "length acc < n")
    case False
    then show ?thesis
      using less.prems by (subst ReadAtLeast.simps) simp
  next
    case True
    obtain d e s1 where r: "rd s (n - length acc) = (d, e, s1)"
      by (metis prod_cases3)
    have pos: "0 < n - length acc" using True by simp
    show ?thesis
    proof (cases e)
      case (Some er)
      with read_fail [OF pos] read_frame r True show ?thesis
        by (subst ReadAtLeast.simps) auto
    next
      case None
      with r have r': "rd s (n - length acc) = (d, None, s1)" by simp
      note fact = read_data [OF pos r'] and fr = read_frame [OF r']
      have len: "length (acc @ d) \<le> n" using fact True by auto
      have rk: "rank s1 < rank s" using fact by simp
      have st: "fst (stream s) = d @ fst (stream s1)" "snd (stream s) = snd (stream s1)"
        using fact by (metis fst_conv, metis snd_conv)
      from less.hyps [OF rk len] obtain s' where IH:
        "ReadAtLeast rd n s1 (acc @ d) =
          Some (if n \<le> length (acc @ d) + length (fst (stream s1))
                then ((acc @ d) @ take (n - length (acc @ d)) (fst (stream s1)), None, s')
                else ((acc @ d) @ fst (stream s1), Some (snd (stream s1)), s'))"
        "frame s' = frame s1"
        "n \<le> length (acc @ d) + length (fst (stream s1)) \<longrightarrow>
          stream s' = (drop (n - length (acc @ d)) (fst (stream s1)), snd (stream s1))"
        by blast
      have step: "ReadAtLeast rd n s acc = ReadAtLeast rd n s1 (acc @ d)"
        using True r' by (subst ReadAtLeast.simps) simp
      have dl: "length d \<le> n - length acc" using fact by simp
      show ?thesis
        using IH fr st dl by (intro exI [of _ s']) (auto simp: step take_append drop_append)
    qed
  qed
qed

lemma ReadFull_enough:
  assumes "stream s = (bs, e)" "n \<le> length bs"
  obtains s' where "ReadFull rd s n = Some (take n bs, None, s')"
    "stream s' = (drop n bs, e)" "frame s' = frame s"
  using ReadAtLeast_spec [of "[]" n s] assms by (auto simp: ReadFull_def)

lemma ReadFull_cases:
  obtains (full) d s' where "ReadFull rd s n = Some (d, None, s')" "length d = n"
      "stream s = (d @ fst (stream s'), snd (stream s'))" "frame s' = frame s"
  | (short) s' e' where "length (fst (stream s)) < n"
      "ReadFull rd s n = Some (fst (stream s), Some e', s')"
      "e' = (if fst (stream s) \<noteq> [] \<and> snd (stream s) = EOF then ErrUnexpectedEOF else snd (stream s))"
      "frame s' = frame s"
proof (cases "n \<le> length (fst (stream s))")
  case True
  with ReadAtLeast_spec [of "[]" n s] obtain s' where
    "ReadFull rd s n = Some (take n (fst (stream s)), None, s')"
    "stream s' = (drop n (fst (stream s)), snd (stream s))" "frame s' = frame s"
    by (auto simp: ReadFull_def)
  with True show thesis by (intro full [of "take n (fst (stream s))" s']) simp_all
next
  case False
  with ReadAtLeast_spec [of "[]" n s] obtain s' where
    "ReadAtLeast rd n s [] = Some (fst (stream s), Some (snd (stream s)), s')" "frame s' = frame s"
    by auto
  with False show thesis by (intro short [of _ s']) (simp_all add: ReadFull_def)
qed

lemma ReadFull_short:
  assumes "stream s = (bs, e)" "length bs < n"
  obtains s' where
    "ReadFull rd s n = Some (bs, Some (if bs \<noteq> [] \<and> e = EOF then ErrUnexpectedEOF else e), s')"
    "frame s' = frame s"
  using ReadAtLeast_spec [of "[]" n s] assms by (auto simp: ReadFull_def)

end

text \<open>
  \<open>out w\<close> is what the writer has accepted so far and \<open>room w k\<close> promises that it accepts
  \<open>k\<close> more bytes. A write that stops early reports an error, as \<^verbatim>\<open>io.Writer\<close> demands.
\<close>

locale go_writer =
  fixes wr :: "'w writer"
    and out :: "'w \<Rightarrow> byte list"
    and room :: "'w \<Rightarrow> nat \<Rightarrow> bool"
  assumes write_ok: "wr w b = (n, None, w') \<Longrightarrow> n = length b \<and> out w' = out w @ b"
    and write_err: "wr w b = (n, Some e, w') \<Longrightarrow> n \<le> length b \<and> out w' = out w @ take n b"
    and write_room: "room w k \<Longrightarrow> length b \<le> k \<Longrightarrow>
      \<exists>w'. wr w b = (length b, None, w') \<and> room w' (k - length b)"

locale go_copy = go_reader rd stream rank frame + go_writer wr out room
  for rd :: "'s reader" and stream rank and frame :: "'s \<Rightarrow> 'f"
    and wr :: "'w writer" and out room
begin

text \<open>The copy loop returns; what reaches the writer is a prefix of the stream.\<close>

lemma CopyBuffer_spec:
  assumes "0 < buf"
  shows "\<exists>m r s' w'. CopyBuffer rd wr buf k s w = Some (k + m, r, s', w')
    \<and> m \<le> length (fst (stream s)) \<and> out w' = out w @ take m (fst (stream s))
    \<and> frame s' = frame s
    \<and> (r = None \<longrightarrow>
        m = length (fst (stream s)) \<and> snd (stream s) = EOF \<and> stream s' = ([], EOF))
    \<and> (\<forall>j. room w (length (fst (stream s)) + j) \<longrightarrow>
        m = length (fst (stream s)) \<and> r = end_error (snd (stream s)) \<and> room w' j)"
proof (induction "rank s" arbitrary: s k w rule: less_induct)
  case less
  obtain d er s1 where r: "rd s buf = (d, er, s1)" by (metis prod_cases3)
  note fr = read_frame [OF r]
  show ?case
  proof (cases er)
    case (Some e)
    with read_fail [OF assms] r
    have "d = []" "stream s = ([], e)" "e = EOF \<longrightarrow> stream s1 = stream s" by auto
    with Some r fr show ?thesis
      by (subst CopyBuffer.simps) (auto simp: copy_chunk_def end_error_def)
  next
    case None
    with r have r': "rd s buf = (d, None, s1)" by simp
    obtain bs e where st: "stream s = (d @ bs, e)" "stream s1 = (bs, e)"
      and rk: "rank s1 < rank s"
      using read_data [OF assms r'] by (metis prod.collapse)
    show ?thesis
    proof (cases "d = []")
      case True
      then have "CopyBuffer rd wr buf k s w = CopyBuffer rd wr buf k s1 w"
        using r' by (subst CopyBuffer.simps) (simp add: copy_chunk_def)
      then show ?thesis
        using less.hyps [OF rk, of k w] fr unfolding st True by simp
    next
      case False
      obtain n ew w1 where w: "wr w d = (n, ew, w1)" by (metis prod_cases3)
      show ?thesis
      proof (cases ew)
        case (Some x)
        with write_err w have n: "n \<le> length d" "out w1 = out w @ take n d" by auto
        have "\<not> room w (length (d @ bs) + j)" for j
          using write_room [of w "length (d @ bs) + j" d] w Some by auto
        with r' w Some False n st fr show ?thesis
          by (subst CopyBuffer.simps) (auto simp: copy_chunk_def)
      next
        case None
        with write_ok w have n: "n = length d" "out w1 = out w @ d" by auto
        have step: "CopyBuffer rd wr buf k s w = CopyBuffer rd wr buf (k + length d) s1 w1"
          using r' w None False n by (subst CopyBuffer.simps) (simp add: copy_chunk_def)
        have rm: "room w (length (d @ bs) + j) \<longrightarrow> room w1 (length bs + j)" for j
          using write_room [of w "length (d @ bs) + j" d] w by auto
        from less.hyps [OF rk, of "k + length d" w1] obtain m r s' w' where IH:
          "CopyBuffer rd wr buf (k + length d) s1 w1 = Some (k + length d + m, r, s', w')"
          "m \<le> length bs" "out w' = out w1 @ take m bs" "frame s' = frame s1"
          "r = None \<longrightarrow> m = length bs \<and> e = EOF \<and> stream s' = ([], EOF)"
          "\<forall>j. room w1 (length bs + j) \<longrightarrow> m = length bs \<and> r = end_error e \<and> room w' j"
          unfolding st fst_conv snd_conv by (elim exE conjE) (rule that)
        have "CopyBuffer rd wr buf k s w = Some (k + (length d + m), r, s', w')"
          using step IH(1) by (simp only: add.assoc)
        moreover have "out w' = out w @ take (length d + m) (d @ bs)"
          using IH(3) n(2) by simp
        ultimately show ?thesis
          unfolding st fst_conv snd_conv using IH(2,4-) rm fr
          by (intro exI conjI) (assumption | simp | blast)+
      qed
    qed
  qed
qed

end

text \<open>
  Whatever every successful read and every end-of-file read keeps, a copy that ends without an
  error keeps.
\<close>

lemma CopyBuffer_keeps:
  assumes ret: "CopyBuffer rd wr buf k s w = Some (m, None, s', w')"
    and data: "\<And>s d s'. rd s buf = (d, None, s') \<Longrightarrow> g s' = g s"
    and eof: "\<And>s d s'. rd s buf = (d, Some EOF, s') \<Longrightarrow> g s' = g s"
  shows "g s' = g s"
proof -
  define P where "P = (\<lambda>rd' (wr' :: 'b writer) buf' (k :: nat) s (w :: 'b) res.
    rd' = rd \<and> buf' = buf \<longrightarrow> (case res of (m :: nat, r :: error option, t, v :: 'b) \<Rightarrow> r = None \<longrightarrow> g t = g s))"
  have "P rd wr buf k s w (m, None, s', w')"
  proof (rule CopyBuffer.raw_induct [of P, OF _ ret])
    fix f rd' and wr' :: "'b writer" and buf' k s w res
    assume IH: "\<And>rd' wr' buf' k s w res. f rd' wr' buf' k s w = Some res \<Longrightarrow> P rd' wr' buf' k s w res"
      and eq: "(case rd' s buf' of (d, er, s') \<Rightarrow>
        (case copy_chunk wr' d er k w of
           (k', None, w') \<Rightarrow> f rd' wr' buf' k' s' w'
         | (k', Some res, w') \<Rightarrow> Some (k', res, s', w'))) = Some res"
    obtain d er s1 where r: "rd' s buf' = (d, er, s1)" by (metis prod_cases3)
    obtain k' b w1 where c: "copy_chunk wr' d er k w = (k', b, w1)" by (metis prod_cases3)
    show "P rd' wr' buf' k s w res"
    proof (cases b)
      case None
      then have "er = None"
        using c by (auto simp: copy_chunk_def Let_def split: option.splits if_splits prod.splits)
      with data [of s d s1] IH [of rd' wr' buf' k' s1 w1 res] eq r c None show ?thesis
        by (auto simp: P_def)
    next
      case (Some x)
      with c have "x = None \<longrightarrow> er = None \<or> er = Some EOF"
        by (auto simp: copy_chunk_def end_error_def Let_def split: option.splits if_splits prod.splits)
      with data [of s d s1] eof [of s d s1] r eq c Some show ?thesis by (auto simp: P_def)
    qed
  qed
  then show ?thesis by (simp add: P_def)
qed

text \<open>An invariant of reader and writer that every read and every write keeps, every loop keeps.\<close>

lemma CopyBuffer_invariant:
  assumes ret: "CopyBuffer rd wr buf k s w = Some (m, r, s', w')" and start: "Q s w"
    and rds: "\<And>s w d e s'. Q s w \<Longrightarrow> rd s buf = (d, e, s') \<Longrightarrow> Q s' w"
    and wrs: "\<And>s w b n e w'. Q s w \<Longrightarrow> wr w b = (n, e, w') \<Longrightarrow> Q s w'"
  shows "Q s' w'"
proof -
  define P where "P = (\<lambda>rd' wr' buf' (k :: nat) s w res.
    rd' = rd \<and> wr' = wr \<and> buf' = buf \<and> Q s w \<longrightarrow> (case res of (m :: nat, r :: error option, t, v) \<Rightarrow> Q t v))"
  have "P rd wr buf k s w (m, r, s', w')"
  proof (rule CopyBuffer.raw_induct [of P, OF _ ret])
    fix f rd' wr' buf' k s w res
    assume IH: "\<And>rd' wr' buf' k s w res. f rd' wr' buf' k s w = Some res \<Longrightarrow> P rd' wr' buf' k s w res"
      and eq: "(case rd' s buf' of (d, er, s') \<Rightarrow>
        (case copy_chunk wr' d er k w of
           (k', None, w') \<Rightarrow> f rd' wr' buf' k' s' w'
         | (k', Some res, w') \<Rightarrow> Some (k', res, s', w'))) = Some res"
    obtain d er s1 where r: "rd' s buf' = (d, er, s1)" by (metis prod_cases3)
    obtain k' b w1 where c: "copy_chunk wr' d er k w = (k', b, w1)" by (metis prod_cases3)
    have "wr' = wr \<and> Q s1 w \<longrightarrow> Q s1 w1"
      using c wrs [of s1 w d] by (auto simp: copy_chunk_def Let_def split: if_splits prod.splits)
    with IH [of rd' wr' buf' k' s1 w1 res] eq r c rds [of s w d er s1] show "P rd' wr' buf' k s w res"
      by (cases b) (auto simp: P_def)
  qed
  with start show ?thesis by (simp add: P_def)
qed

lemma ReadAtLeast_invariant:
  assumes ret: "ReadAtLeast rd n s acc = Some (d, r, s')" and start: "Q s"
    and rds: "\<And>s n d e s'. Q s \<Longrightarrow> rd s n = (d, e, s') \<Longrightarrow> Q s'"
  shows "Q s'"
proof -
  define P where "P = (\<lambda>rd' (n :: nat) s (acc :: byte list) res.
    rd' = rd \<and> Q s \<longrightarrow> (case res of (d :: byte list, r :: error option, t) \<Rightarrow> Q t))"
  have "P rd n s acc (d, r, s')"
  proof (rule ReadAtLeast.raw_induct [of P, OF _ ret])
    fix f rd' n s acc res
    assume IH: "\<And>rd' n s acc res. f rd' n s acc = Some res \<Longrightarrow> P rd' n s acc res"
      and eq: "(if length acc < n then
        (case rd' s (n - length acc) of
           (d, None, s') \<Rightarrow> f rd' n s' (acc @ d)
         | (d, Some e, s') \<Rightarrow> Some (acc @ d, Some e, s'))
        else Some (acc, None, s)) = Some res"
    obtain d er s1 where r: "rd' s (n - length acc) = (d, er, s1)" by (metis prod_cases3)
    with IH [of rd' n s1 "acc @ d" res] eq rds [of s "n - length acc" d er s1]
    show "P rd' n s acc res"
      by (cases er) (auto simp: P_def split: if_splits)
  qed
  with start show ?thesis by (simp add: P_def)
qed

lemma ReadFull_invariant:
  assumes ret: "ReadFull rd s n = Some (d, r, s')" and start: "Q s"
    and rds: "\<And>s n d e s'. Q s \<Longrightarrow> rd s n = (d, e, s') \<Longrightarrow> Q s'"
  shows "Q s'"
proof -
  from ret obtain e where "ReadAtLeast rd n s [] = Some (d, e, s')"
    by (auto simp: ReadFull_def split: option.splits)
  then show ?thesis using start rds by (rule ReadAtLeast_invariant)
qed

section \<open>Sources\<close>

text \<open>
  A source hands out the bytes \<open>pend\<close> it holds in order and loses none: what a call has read
  and what is left make up what was there before. This says what a client consumed, also when
  the stream is cut short by a deadline.
\<close>

locale go_source =
  fixes rd :: "'s reader"
    and pend :: "'s \<Rightarrow> byte list"
  assumes pend_read: "rd s n = (d, r, s') \<Longrightarrow> pend s = d @ pend s'"
begin

lemma ReadAtLeast_pend:
  assumes ret: "ReadAtLeast rd n s acc = Some (d, r, s')"
  shows "acc @ pend s = d @ pend s'"
proof -
  define P where "P = (\<lambda>rd' (n :: nat) s acc res.
    rd' = rd \<longrightarrow> (case res of (d, r :: error option, t) \<Rightarrow> acc @ pend s = d @ pend t))"
  have "P rd n s acc (d, r, s')"
  proof (rule ReadAtLeast.raw_induct [of P, OF _ ret])
    fix f rd' n s acc res
    assume IH: "\<And>rd' n s acc res. f rd' n s acc = Some res \<Longrightarrow> P rd' n s acc res"
      and eq: "(if length acc < n then
        (case rd' s (n - length acc) of
           (d, None, s') \<Rightarrow> f rd' n s' (acc @ d)
         | (d, Some e, s') \<Rightarrow> Some (acc @ d, Some e, s'))
        else Some (acc, None, s)) = Some res"
    obtain d er s1 where r: "rd' s (n - length acc) = (d, er, s1)" by (metis prod_cases3)
    with IH [of rd' n s1 "acc @ d" res] eq pend_read [of s "n - length acc" d er s1]
    show "P rd' n s acc res"
      by (cases er) (auto simp: P_def split: if_splits)
  qed
  then show ?thesis by (simp add: P_def)
qed

lemma ReadFull_pend: "ReadFull rd s n = Some (d, r, s') \<Longrightarrow> pend s = d @ pend s'"
  using ReadAtLeast_pend [of n s "[]"] by (auto simp: ReadFull_def split: option.splits)

lemma copy_limited_pend:
  assumes "CopyBuffer (TeeReader (LimitReader rd)) wr buf k ((s, N), h) w = Some (m, None, ((s', N'), h'), w')"
  shows "h @ pend s = h' @ pend s'"
proof -
  let ?g = "\<lambda>((s, N), h). h @ pend s"
  have keep: "?g x' = ?g x" if "TeeReader (LimitReader rd) x buf = (d, r, x')" for x d r x'
    using that by (cases x; cases x')
      (auto simp: TeeReader_def LimitReader_def split: prod.splits if_splits dest: pend_read)
  have "?g ((s', N'), h') = ?g ((s, N), h)"
    by (rule CopyBuffer_keeps [OF assms]) (rule keep, assumption)+
  then show ?thesis by simp
qed

end

section \<open>The adapters keep the contract\<close>

text \<open>The stream behind \<^verbatim>\<open>io.LimitReader\<close>: cut off after \<open>N\<close> bytes with an EOF.\<close>

definition limited :: "byte list \<times> error \<Rightarrow> int \<Rightarrow> byte list \<times> error" where
  "limited st N = (if N \<le> int (length (fst st)) then (take (nat N) (fst st), EOF) else st)"

context go_reader
begin

lemma limit_reader:
  "go_reader (LimitReader rd) (\<lambda>(s, N). limited (stream s) N) (\<lambda>(s, N). rank s) (\<lambda>(s, N). frame s)"
proof unfold_locales
  fix n :: nat and sN d sN'
  assume n: "0 < n" and r: "LimitReader rd sN n = (d, None, sN')"
  obtain s N where sN: "sN = (s, N)" by fastforce
  define n' where "n' = (if N < int n then nat N else n)"
  from r sN have N: "0 < N"
    by (auto simp: LimitReader_def split: if_splits)
  with n have n': "0 < n'" by (simp add: n'_def)
  from r sN N obtain s' where r': "rd s n' = (d, None, s')" and sN': "sN' = (s', N - int (length d))"
    by (auto simp: LimitReader_def n'_def split: if_splits prod.splits)
  from read_data [OF n' r'] have "length d \<le> n'" "rank s' < rank s"
    and st: "stream s = (d @ fst (stream s'), snd (stream s'))" by auto
  moreover have "int (length d) \<le> N"
    using \<open>length d \<le> n'\<close> N by (auto simp: n'_def split: if_splits)
  ultimately show "length d \<le> n \<and> (case sN' of (s, N) \<Rightarrow> rank s) < (case sN of (s, N) \<Rightarrow> rank s) \<and>
      (case sN of (s, N) \<Rightarrow> limited (stream s) N) =
      (d @ fst (case sN' of (s, N) \<Rightarrow> limited (stream s) N), snd (case sN' of (s, N) \<Rightarrow> limited (stream s) N))"
    using N by (auto simp: sN sN' limited_def n'_def nat_diff_distrib split: if_splits)
next
  fix n :: nat and sN d e sN'
  assume n: "0 < n" and r: "LimitReader rd sN n = (d, Some e, sN')"
  obtain s N where sN: "sN = (s, N)" by fastforce
  show "d = [] \<and> (case sN of (s, N) \<Rightarrow> limited (stream s) N) = ([], e) \<and>
     (e = EOF \<longrightarrow> (case sN' of (s, N) \<Rightarrow> limited (stream s) N) = (case sN of (s, N) \<Rightarrow> limited (stream s) N))"
  proof (cases "N \<le> 0")
    case True
    with r sN show ?thesis by (auto simp: LimitReader_def limited_def)
  next
    case False
    define n' where "n' = (if N < int n then nat N else n)"
    with n False have n': "0 < n'" by simp
    from r sN False obtain s' where r': "rd s n' = (d, Some e, s')"
      and sN': "sN' = (s', N - int (length d))"
      by (auto simp: LimitReader_def n'_def split: if_splits prod.splits)
    with read_fail [OF n' r'] False show ?thesis by (auto simp: sN sN' limited_def)
  qed
next
  fix sN and n :: nat and d r sN'
  assume "LimitReader rd sN n = (d, r, sN')"
  then show "(case sN' of (s, N) \<Rightarrow> frame s) = (case sN of (s, N) \<Rightarrow> frame s)"
    by (auto simp: LimitReader_def split: if_splits prod.splits dest: read_frame)
qed

lemma tee_reader:
  "go_reader (TeeReader rd) (\<lambda>(s, h). stream s) (\<lambda>(s, h). rank s) (\<lambda>(s, h). frame s)"
  by unfold_locales
     (auto simp: TeeReader_def split: prod.splits dest: read_data read_fail read_frame)

text \<open>What a successful or end-of-file read through the tee keeps: the bytes hashed so far,
  followed by those still to come, are the stream.\<close>

lemma tee_keeps:
  assumes "0 < n" "TeeReader rd (s, h) n = (d, r, (s', h'))" "r = None \<or> r = Some EOF"
  shows "h' @ fst (stream s') = h @ fst (stream s) \<and> snd (stream s') = snd (stream s)"
  using assms read_data [OF assms(1), of s d s'] read_fail [OF assms(1), of s d EOF s']
  by (auto simp: TeeReader_def split: prod.splits)

lemma limit_tee_keeps:
  assumes "0 < n" "TeeReader (LimitReader rd) ((s, N), h) n = (d, r, ((s', N'), h'))"
    "r = None \<or> r = Some EOF"
  shows "h' @ fst (stream s') = h @ fst (stream s) \<and> snd (stream s') = snd (stream s) \<and>
    N' + int (length h') = N + int (length h) \<and> (0 \<le> N' \<longleftrightarrow> 0 \<le> N) \<and> (N < 0 \<longrightarrow> h' = h)"
proof (cases "N \<le> 0")
  case True
  with assms show ?thesis by (auto simp: TeeReader_def LimitReader_def)
next
  case False
  define n' where "n' = (if N < int n then nat N else n)"
  with assms(1) False have n': "0 < n'" by simp
  have r': "rd s n' = (d, r, s')" and h': "h' = h @ d" and N': "N' = N - int (length d)"
    using assms(2) False by (auto simp: TeeReader_def LimitReader_def n'_def split: prod.splits if_splits)
  from assms(3) show ?thesis
  proof
    assume "r = None"
    with read_data [OF n'] r' have "length d \<le> n'" "stream s = (d @ fst (stream s'), snd (stream s'))"
      by auto
    moreover have "int n' \<le> N" using False by (simp add: n'_def)
    ultimately show ?thesis using h' N' False by auto
  next
    assume "r = Some EOF"
    with read_fail [OF n', of s d EOF s'] r' h' N' show ?thesis by simp
  qed
qed

end

text \<open>A source that is teed into a hash and copied to a writer, with and without a limit.\<close>

locale go_pipe = go_reader rd stream rank frame + go_writer wr out room
  for rd :: "'s reader" and stream rank and frame :: "'s \<Rightarrow> 'f"
    and wr :: "'w writer" and out room

sublocale go_pipe \<subseteq> teed: go_copy "TeeReader rd" "\<lambda>(s, h). stream s" "\<lambda>(s, h). rank s"
    "\<lambda>(s, h). frame s" wr out room
  by (intro go_copy.intro tee_reader go_writer_axioms)

sublocale go_pipe \<subseteq> cut: go_reader "LimitReader rd" "\<lambda>(s, N). limited (stream s) N"
    "\<lambda>(s, N). rank s" "\<lambda>(s, N). frame s"
  by (rule limit_reader)

sublocale go_pipe \<subseteq> cut_teed: go_copy "TeeReader (LimitReader rd)"
    "\<lambda>(sN, h). (\<lambda>(s, N). limited (stream s) N) sN" "\<lambda>(sN, h). (\<lambda>(s, N). rank s) sN"
    "\<lambda>(sN, h). (\<lambda>(s, N). frame s) sN" wr out room
  by (intro go_copy.intro cut.tee_reader go_writer_axioms)

context go_pipe
begin

lemma copy_all:
  assumes buf: "0 < buf" and st: "stream s = (bs, e)"
  shows "\<exists>m r s' h' w'. CopyBuffer (TeeReader rd) wr buf 0 (s, []) w = Some (m, r, (s', h'), w')
    \<and> m \<le> length bs \<and> out w' = out w @ take m bs \<and> frame s' = frame s
    \<and> (r = None \<longrightarrow> m = length bs \<and> h' = bs \<and> e = EOF)
    \<and> (\<forall>j. room w (length bs + j) \<longrightarrow> m = length bs \<and> r = end_error e \<and> room w' j)"
proof -
  from teed.CopyBuffer_spec [OF buf, of 0 "(s, [])" w] obtain m r t w' where t:
    "CopyBuffer (TeeReader rd) wr buf 0 (s, []) w = Some (0 + m, r, t, w')"
    "m \<le> length bs" "out w' = out w @ take m bs" "(case t of (s, h) \<Rightarrow> frame s) = frame s"
    "r = None \<longrightarrow> m = length bs \<and> e = EOF \<and> (case t of (s, h) \<Rightarrow> stream s) = ([], EOF)"
    "\<forall>j. room w (length bs + j) \<longrightarrow> m = length bs \<and> r = end_error e \<and> room w' j"
    unfolding split st fst_conv snd_conv by (elim exE conjE) (rule that)
  obtain s' h' where "t = (s', h')" by (cases t)
  with t have ret: "CopyBuffer (TeeReader rd) wr buf 0 (s, []) w = Some (m, r, (s', h'), w')"
    and m: "m \<le> length bs" "out w' = out w @ take m bs" "frame s' = frame s"
    and ok: "r = None \<longrightarrow> m = length bs \<and> e = EOF \<and> stream s' = ([], EOF)"
    and rm: "\<forall>j. room w (length bs + j) \<longrightarrow> m = length bs \<and> r = end_error e \<and> room w' j"
    by simp_all
  have "r = None \<longrightarrow> h' = bs"
  proof
    assume r: "r = None"
    let ?g = "\<lambda>(s, h). h @ fst (stream s)"
    have "?g (s', h') = ?g (s, [])"
      by (rule CopyBuffer_keeps [OF ret [unfolded r]]) (auto dest: tee_keeps [OF buf])
    then show "h' = bs" using ok r st by simp
  qed
  with ok have "r = None \<longrightarrow> m = length bs \<and> h' = bs \<and> e = EOF" by simp
  with ret m rm show ?thesis by blast
qed

lemma copy_limited:
  assumes buf: "0 < buf" and st: "stream s = (bs, e)"
  shows "\<exists>m r s' N' h' w'.
      CopyBuffer (TeeReader (LimitReader rd)) wr buf 0 ((s, N), []) w = Some (m, r, ((s', N'), h'), w')
    \<and> m \<le> length (fst (limited (bs, e) N)) \<and> out w' = out w @ take m bs \<and> frame s' = frame s
    \<and> (r = None \<longrightarrow> m = length (fst (limited (bs, e) N)) \<and> h' = take m bs \<and> stream s' = (drop m bs, e))
    \<and> (\<forall>j. room w (length (fst (limited (bs, e) N)) + j) \<longrightarrow>
        m = length (fst (limited (bs, e) N)) \<and> r = end_error (snd (limited (bs, e) N)) \<and> room w' j)"
proof -
  from cut_teed.CopyBuffer_spec [OF buf, of 0 "((s, N), [])" w] obtain m r t w' where t:
    "CopyBuffer (TeeReader (LimitReader rd)) wr buf 0 ((s, N), []) w = Some (0 + m, r, t, w')"
    "m \<le> length (fst (limited (bs, e) N))" "out w' = out w @ take m (fst (limited (bs, e) N))"
    "(case t of (sN, h) \<Rightarrow> case sN of (s, N) \<Rightarrow> frame s) = frame s"
    "r = None \<longrightarrow> m = length (fst (limited (bs, e) N)) \<and> snd (limited (bs, e) N) = EOF \<and>
       (case t of (sN, h) \<Rightarrow> case sN of (s, N) \<Rightarrow> limited (stream s) N) = ([], EOF)"
    "\<forall>j. room w (length (fst (limited (bs, e) N)) + j) \<longrightarrow>
       m = length (fst (limited (bs, e) N)) \<and> r = end_error (snd (limited (bs, e) N)) \<and> room w' j"
    unfolding split st by (elim exE conjE) (rule that)
  obtain s' N' h' where "t = ((s', N'), h')" by (metis prod.collapse)
  with t have ret: "CopyBuffer (TeeReader (LimitReader rd)) wr buf 0 ((s, N), []) w =
      Some (m, r, ((s', N'), h'), w')"
    and m: "m \<le> length (fst (limited (bs, e) N))" "out w' = out w @ take m (fst (limited (bs, e) N))"
      "frame s' = frame s"
    and ok: "r = None \<longrightarrow> m = length (fst (limited (bs, e) N)) \<and> limited (stream s') N' = ([], EOF)"
    and rm: "\<forall>j. room w (length (fst (limited (bs, e) N)) + j) \<longrightarrow>
      m = length (fst (limited (bs, e) N)) \<and> r = end_error (snd (limited (bs, e) N)) \<and> room w' j"
    by simp_all
  have pre: "take m (fst (limited (bs, e) N)) = take m bs"
    using m(1) by (auto simp: limited_def)
  have "r = None \<longrightarrow> h' = take m bs \<and> stream s' = (drop m bs, e)"
  proof
    assume r: "r = None"
    let ?g = "\<lambda>((s, N), h). (h @ fst (stream s), snd (stream s), N + int (length h),
      if N < 0 then Some h else None)"
    have "?g ((s', N'), h') = ?g ((s, N), [])"
      by (rule CopyBuffer_keeps [OF ret [unfolded r]]) (fastforce dest: limit_tee_keeps [OF buf])+
    then have g: "h' @ fst (stream s') = bs" "snd (stream s') = e" "N' + int (length h') = N"
      "(if N' < 0 then Some h' else None) = (if N < 0 then Some [] else None)"
      by (simp_all add: st)
    have lim: "limited (stream s') N' = ([], EOF)" "m = length (fst (limited (bs, e) N))"
      using ok r by auto
    have "length h' = m"
      using g lim by (auto simp: limited_def split: if_splits)
    with g show "h' = take m bs \<and> stream s' = (drop m bs, e)"
      by (metis append_eq_conv_conj prod.collapse)
  qed
  with ok have "r = None \<longrightarrow> m = length (fst (limited (bs, e) N)) \<and> h' = take m bs \<and> stream s' = (drop m bs, e)"
    by simp
  with ret m rm show ?thesis unfolding pre by blast
qed

end

end
