(* ===== verification/Sha256.thy ===== *)
theory Sha256
  imports Prelude
begin

text \<open>
  The digest \<^verbatim>\<open>crypto/sha256\<close> computes (FIPS 180-4), written out so that the
  statements about checksums are statements about SHA-256 and not about an unknown function.
  The streaming hash of the source (\<^verbatim>\<open>sha256.New()\<close>, \<^verbatim>\<open>Write\<close>, \<^verbatim>\<open>Sum(nil)\<close>)
  is the bytes written so far and, at the end, \<open>sha256\<close> of them.
\<close>

definition sha_K :: "u32 list" where
  "sha_K =
    [1116352408, 1899447441, 3049323471, 3921009573, 961987163, 1508970993, 2453635748, 2870763221,
     3624381080, 310598401, 607225278, 1426881987, 1925078388, 2162078206, 2614888103, 3248222580,
     3835390401, 4022224774, 264347078, 604807628, 770255983, 1249150122, 1555081692, 1996064986,
     2554220882, 2821834349, 2952996808, 3210313671, 3336571891, 3584528711, 113926993, 338241895,
     666307205, 773529912, 1294757372, 1396182291, 1695183700, 1986661051, 2177026350, 2456956037,
     2730485921, 2820302411, 3259730800, 3345764771, 3516065817, 3600352804, 4094571909, 275423344,
     430227734, 506948616, 659060556, 883997877, 958139571, 1322822218, 1537002063, 1747873779,
     1955562222, 2024104815, 2227730452, 2361852424, 2428436474, 2756734187, 3204031479, 3329325298]"

record sha_state =
  sha_a :: u32
  sha_b :: u32
  sha_c :: u32
  sha_d :: u32
  sha_e :: u32
  sha_f :: u32
  sha_g :: u32
  sha_h :: u32

definition sha_init :: sha_state where
  "sha_init =
    \<lparr>sha_a = 1779033703, sha_b = 3144134277, sha_c = 1013904242, sha_d = 2773480762,
     sha_e = 1359893119, sha_f = 2600822924, sha_g = 528734635, sha_h = 1541459225\<rparr>"

definition sha_sigma0 :: "u32 \<Rightarrow> u32" where
  "sha_sigma0 x = word_rotr 7 x XOR word_rotr 18 x XOR drop_bit 3 x"

definition sha_sigma1 :: "u32 \<Rightarrow> u32" where
  "sha_sigma1 x = word_rotr 17 x XOR word_rotr 19 x XOR drop_bit 10 x"

definition sha_Sigma0 :: "u32 \<Rightarrow> u32" where
  "sha_Sigma0 x = word_rotr 2 x XOR word_rotr 13 x XOR word_rotr 22 x"

definition sha_Sigma1 :: "u32 \<Rightarrow> u32" where
  "sha_Sigma1 x = word_rotr 6 x XOR word_rotr 11 x XOR word_rotr 25 x"

text \<open>The message schedule grows the sixteen words of a block to sixty-four.\<close>

fun sha_schedule :: "nat \<Rightarrow> u32 list \<Rightarrow> u32 list" where
  "sha_schedule 0 ws = ws"
| "sha_schedule (Suc n) ws =
     (let t = length ws in
      sha_schedule n (ws @ [sha_sigma1 (ws ! (t - 2)) + ws ! (t - 7) + sha_sigma0 (ws ! (t - 15)) + ws ! (t - 16)]))"

fun sha_round :: "sha_state \<Rightarrow> u32 \<times> u32 \<Rightarrow> sha_state" where
  "sha_round s (k, w) =
     (let t1 = sha_h s + sha_Sigma1 (sha_e s) + ((sha_e s AND sha_f s) XOR (NOT (sha_e s) AND sha_g s)) + k + w;
          t2 = sha_Sigma0 (sha_a s) +
                 ((sha_a s AND sha_b s) XOR (sha_a s AND sha_c s) XOR (sha_b s AND sha_c s))
      in \<lparr>sha_a = t1 + t2, sha_b = sha_a s, sha_c = sha_b s, sha_d = sha_c s,
          sha_e = sha_d s + t1, sha_f = sha_e s, sha_g = sha_f s, sha_h = sha_g s\<rparr>)"

definition Uint32 :: "byte list \<Rightarrow> u32" where
  "Uint32 b = push_bit 24 (ucast (b ! 0)) OR push_bit 16 (ucast (b ! 1)) OR push_bit 8 (ucast (b ! 2)) OR ucast (b ! 3)"

definition PutUint32 :: "u32 \<Rightarrow> byte list" where
  "PutUint32 v = [ucast (drop_bit 24 v), ucast (drop_bit 16 v), ucast (drop_bit 8 v), ucast v]"

definition sha_block_words :: "byte list \<Rightarrow> u32 list" where
  "sha_block_words b = map (\<lambda>i. Uint32 (take 4 (drop (4 * i) b))) [0..<16]"

definition sha_block :: "sha_state \<Rightarrow> byte list \<Rightarrow> sha_state" where
  "sha_block s b =
     (let r = foldl sha_round s (zip sha_K (sha_schedule 48 (sha_block_words b)))
      in \<lparr>sha_a = sha_a s + sha_a r, sha_b = sha_b s + sha_b r, sha_c = sha_c s + sha_c r,
          sha_d = sha_d s + sha_d r, sha_e = sha_e s + sha_e r, sha_f = sha_f s + sha_f r,
          sha_g = sha_g s + sha_g r, sha_h = sha_h s + sha_h r\<rparr>)"

fun sha_blocks :: "nat \<Rightarrow> sha_state \<Rightarrow> byte list \<Rightarrow> sha_state" where
  "sha_blocks 0 s m = s"
| "sha_blocks (Suc n) s m = sha_blocks n (sha_block s (take 64 m)) (drop 64 m)"

definition sha_pad :: "byte list \<Rightarrow> byte list" where
  "sha_pad m = m @ [0x80] @ replicate ((119 - length m mod 64) mod 64) 0 @ PutUint64 (of_nat (8 * length m))"

definition sha256 :: "byte list \<Rightarrow> byte list" where
  "sha256 m =
     (let p = sha_pad m; s = sha_blocks (length p div 64) sha_init p
      in PutUint32 (sha_a s) @ PutUint32 (sha_b s) @ PutUint32 (sha_c s) @ PutUint32 (sha_d s) @
         PutUint32 (sha_e s) @ PutUint32 (sha_f s) @ PutUint32 (sha_g s) @ PutUint32 (sha_h s))"

lemma length_sha256 [codec, simp]: "length (sha256 m) = 32"
  by (simp add: sha256_def PutUint32_def Let_def)

text \<open>The padded message fills whole blocks, so every block that is hashed is complete.\<close>

lemma length_sha_pad: "length (sha_pad m) mod 64 = 0"
proof -
  define q r where "q = length m div 64" and "r = length m mod 64"
  have m: "length m = 64 * q + r" and r: "r < 64" by (simp_all add: q_def r_def)
  have "length (sha_pad m) = 64 * q + (r + 9 + (119 - r) mod 64)"
    using m r by (simp add: sha_pad_def flip: r_def)
  moreover have "(r + 9 + (119 - r) mod 64) mod 64 = 0"
  proof (cases "r \<le> 55")
    case True
    then have "(119 - r) mod 64 = 55 - r" using mod_less [of "55 - r" 64] mod_add_self2 [of "55 - r" 64] by simp
    with True show ?thesis by simp
  next
    case False
    with r have "(119 - r) mod 64 = 119 - r" by simp
    with r show ?thesis by simp
  qed
  ultimately show ?thesis by (simp only: mod_mult_self4)
qed

end
