(* ===== verification/Wire.thy ===== *)
theory Wire
  imports Go_IO Sha256
begin

text \<open>
  The XP1 protocol of \<^verbatim>\<open>internal/wire/protocol.go\<close>: the file name check, the request
  header, the ACK and NACK frames, and the payload stream with its SHA-256 trailer, each a
  function over an arbitrary reader or writer state. A result \<open>None\<close> is a call that does not
  return; under the reader contract of \<open>Go_IO\<close> every call returns.
\<close>

section \<open>Constants and errors\<close>

definition MagicBytes :: "byte list" where
  "MagicBytes = [0x58, 0x50, 0x31, 0x0A]"

definition AckByte :: byte where "AckByte = 0x00"
definition NackByte :: byte where "NackByte = 0x01"
definition MaxFilenameLen :: nat where "MaxFilenameLen = 200"
definition HashSize :: nat where "HashSize = 32"
definition BufferSize :: nat where "BufferSize = 1024 * 1024"

definition ErrInvalidMagic :: error where
  "ErrInvalidMagic = New ''invalid protocol magic header''"
definition ErrInvalidFilename :: error where
  "ErrInvalidFilename = New ''invalid filename: must match regex ^[A-Za-z0-9][A-Za-z0-9._-]{0,199}$ and not end in .tmp or .part''"
definition ErrPayloadTooLarge :: error where
  "ErrPayloadTooLarge = New ''payload size exceeds maximum allowed size''"
definition ErrChecksumMismatch :: error where
  "ErrChecksumMismatch = New ''sha-256 checksum mismatch''"
definition ErrUnexpectedResponse :: error where
  "ErrUnexpectedResponse = New ''unexpected response code from receiver''"
definition ErrShortRead :: error where
  "ErrShortRead = New ''unexpected EOF during transfer''"

section \<open>File names\<close>

definition alnum :: "char \<Rightarrow> bool" where
  "alnum c \<longleftrightarrow> (let n = (of_char c :: nat) in
     65 \<le> n \<and> n \<le> 90 \<or> 97 \<le> n \<and> n \<le> 122 \<or> 48 \<le> n \<and> n \<le> 57)"

definition name_char :: "char \<Rightarrow> bool" where
  "name_char c \<longleftrightarrow> alnum c \<or> c = CHR ''.'' \<or> c = CHR ''_'' \<or> c = CHR ''-''"

text \<open>
  \<^verbatim>\<open>^[A-Za-z0-9][A-Za-z0-9._-]{0,199}$\<close>: without the flag \<^verbatim>\<open>m\<close> the anchors are the
  ends of the text.
\<close>

fun filenameRegex :: "string \<Rightarrow> bool" where
  "filenameRegex [] = False"
| "filenameRegex (c # cs) = (alnum c \<and> length cs \<le> 199 \<and> list_all name_char cs)"

definition ValidateFilename :: "string \<Rightarrow> error option" where
  "ValidateFilename name =
     (if CHR ''/'' \<in> set name \<or> CHR 0x5C \<in> set name
        then Some (Wrap '''' ErrInvalidFilename '': path separators not allowed'')
      else if HasSuffix name ''.tmp'' \<or> HasSuffix name ''.part''
        then Some (Wrap '''' ErrInvalidFilename '': cannot end with .tmp or .part'')
      else if \<not> filenameRegex name then Some ErrInvalidFilename
      else None)"

section \<open>The request header\<close>

definition WriteRequestHeader ::
  "'w writer \<Rightarrow> 'w \<Rightarrow> string \<Rightarrow> u64 \<Rightarrow> error option \<times> 'w"
where
  "WriteRequestHeader wr w filename payloadSize =
     (case ValidateFilename filename of
        Some err \<Rightarrow> (Some err, w)
      | None \<Rightarrow>
          (let nameBytes = bytes_of filename; nameLen = length nameBytes in
           if nameLen > MaxFilenameLen
           then (Some (New (''filename length '' @ itoa nameLen @ '' exceeds max '' @ itoa MaxFilenameLen)), w)
           else
             (let header = MagicBytes @ PutUint16 (of_nat nameLen) @ nameBytes @ PutUint64 payloadSize
              in case wr w header of (_, err, w') \<Rightarrow> (err, w'))))"

text \<open>\<^verbatim>\<open>binary.Read\<close> of a fixed-size integer reads its bytes with \<^const>\<open>ReadFull\<close>.\<close>

definition ReadRequestHeader ::
  "'s reader \<Rightarrow> 's \<Rightarrow> u64 \<Rightarrow> (string \<times> u64 \<times> error option \<times> 's) option"
where
  "ReadRequestHeader rd s maxSize =
     (case ReadFull rd s 4 of None \<Rightarrow> None
      | Some (_, Some err, s1) \<Rightarrow> Some ('''', 0, Some err, s1)
      | Some (magic, None, s1) \<Rightarrow>
     if list_ex (\<lambda>i. magic ! i \<noteq> MagicBytes ! i) [0..<4]
     then Some ('''', 0, Some ErrInvalidMagic, s1)
     else (case ReadFull rd s1 2 of None \<Rightarrow> None
      | Some (_, Some err, s2) \<Rightarrow> Some ('''', 0, Some err, s2)
      | Some (lenBytes, None, s2) \<Rightarrow>
     (let nameLen = Uint16 lenBytes in
     if nameLen = 0 \<or> unat nameLen > MaxFilenameLen
     then Some ('''', 0, Some ErrInvalidFilename, s2)
     else (case ReadFull rd s2 (unat nameLen) of None \<Rightarrow> None
      | Some (_, Some err, s3) \<Rightarrow> Some ('''', 0, Some err, s3)
      | Some (nameBytes, None, s3) \<Rightarrow>
     (let filename = string_of nameBytes in
     (case ValidateFilename filename of
        Some err \<Rightarrow> Some ('''', 0, Some err, s3)
      | None \<Rightarrow>
     (case ReadFull rd s3 8 of None \<Rightarrow> None
      | Some (_, Some err, s4) \<Rightarrow> Some ('''', 0, Some err, s4)
      | Some (sizeBytes, None, s4) \<Rightarrow>
     (let payloadSize = Uint64 sizeBytes in
     if maxSize > 0 \<and> payloadSize > maxSize
     then Some (filename, payloadSize,
            Some (Wrap '''' ErrPayloadTooLarge
                   ('': '' @ itoa (unat payloadSize) @ '' > '' @ itoa (unat maxSize))), s4)
     else Some (filename, payloadSize, None, s4)))))))))"

section \<open>Response frames\<close>

definition WriteAck :: "'w writer \<Rightarrow> 'w \<Rightarrow> error option \<times> 'w" where
  "WriteAck wr w = (case wr w [AckByte] of (_, err, w') \<Rightarrow> (err, w'))"

definition nack_frame :: "string \<Rightarrow> byte list" where
  "nack_frame msg =
     (let msgBytes = (if length (bytes_of msg) > 65535 then take 65535 (bytes_of msg) else bytes_of msg)
      in NackByte # PutUint16 (of_nat (length msgBytes)) @ msgBytes)"

definition WriteNack :: "'w writer \<Rightarrow> 'w \<Rightarrow> string \<Rightarrow> error option \<times> 'w" where
  "WriteNack wr w msg = (case wr w (nack_frame msg) of (_, err, w') \<Rightarrow> (err, w'))"

text \<open>\<^verbatim>\<open>0x%02x\<close> of the code byte.\<close>

definition hex_byte :: "byte \<Rightarrow> string" where
  "hex_byte b = ''0x'' @ EncodeToString [b]"

definition ReadResponse :: "'s reader \<Rightarrow> 's \<Rightarrow> (error option \<times> 's) option" where
  "ReadResponse rd s =
     (case ReadFull rd s 1 of None \<Rightarrow> None
      | Some (_, Some err, s1) \<Rightarrow> Some (Some err, s1)
      | Some (code, None, s1) \<Rightarrow>
     if code ! 0 = AckByte then Some (None, s1)
     else if code ! 0 = NackByte then
       (case ReadFull rd s1 2 of None \<Rightarrow> None
        | Some (_, Some err, s2) \<Rightarrow> Some (Some (Wrap ''failed to read nack message length: '' err ''''), s2)
        | Some (lenBytes, None, s2) \<Rightarrow>
       (case ReadFull rd s2 (unat (Uint16 lenBytes)) of None \<Rightarrow> None
        | Some (_, Some err, s3) \<Rightarrow> Some (Some (Wrap ''failed to read nack message: '' err ''''), s3)
        | Some (msgBytes, None, s3) \<Rightarrow> Some (Some (New (''receiver nack: '' @ string_of msgBytes)), s3)))
     else Some (Some (Wrap '''' ErrUnexpectedResponse ('': byte '' @ hex_byte (code ! 0))), s1))"

section \<open>The payload stream\<close>

definition SendStream ::
  "'w writer \<Rightarrow> 's reader \<Rightarrow> 'w \<Rightarrow> 's \<Rightarrow> u64 \<Rightarrow> (byte list \<times> error option \<times> 's \<times> 'w) option"
where
  "SendStream wr rd w s payloadSize =
     (case CopyBuffer (TeeReader rd) wr BufferSize 0 (s, []) w of None \<Rightarrow> None
      | Some (_, Some err, (s1, _), w1) \<Rightarrow> Some ([], Some err, s1, w1)
      | Some (copied, None, (s1, hasher), w1) \<Rightarrow>
     if (of_nat copied :: u64) \<noteq> payloadSize
     then Some ([], Some (Wrap '''' ErrShortRead
            ('': expected '' @ itoa (unat payloadSize) @ '' bytes, copied '' @ itoa copied)), s1, w1)
     else
       (let sum = sha256 hasher in
        (case wr w1 sum of
           (_, Some err, w2) \<Rightarrow> Some ([], Some (Wrap ''failed to write checksum trailer: '' err ''''), s1, w2)
         | (_, None, w2) \<Rightarrow> Some (sum, None, s1, w2))))"

text \<open>
  The limit is \<^verbatim>\<open>int64(payloadSize)\<close>, the two's complement reading of the 64 bits. The
  destination of the program, an \<^verbatim>\<open>os.File\<close>, brings its own copy loop with a buffer of
  its own (\<^verbatim>\<open>io.ReaderFrom\<close>), so the buffer size is a parameter \<open>buf\<close>.
\<close>

definition ReceiveStream ::
  "nat \<Rightarrow> 'w writer \<Rightarrow> 's reader \<Rightarrow> 'w \<Rightarrow> 's \<Rightarrow> u64 \<Rightarrow> (error option \<times> 's \<times> 'w) option"
where
  "ReceiveStream buf wr rd w s payloadSize =
     (case CopyBuffer (TeeReader (LimitReader rd)) wr buf 0 ((s, sint payloadSize), []) w of None \<Rightarrow> None
      | Some (_, Some err, ((s1, _), _), w1) \<Rightarrow> Some (Some err, s1, w1)
      | Some (copied, None, ((s1, _), hasher), w1) \<Rightarrow>
     if (of_nat copied :: u64) \<noteq> payloadSize
     then Some (Some (Wrap '''' ErrShortRead
            ('': expected '' @ itoa (unat payloadSize) @ '' bytes, got '' @ itoa copied)), s1, w1)
     else
       (case ReadFull rd s1 HashSize of None \<Rightarrow> None
        | Some (_, Some err, s2) \<Rightarrow> Some (Some (Wrap ''failed to read checksum trailer: '' err ''''), s2, w1)
        | Some (trailer, None, s2) \<Rightarrow>
       (let calculated = sha256 hasher in
        if list_ex (\<lambda>i. calculated ! i \<noteq> trailer ! i) [0..<HashSize]
        then Some (Some ErrChecksumMismatch, s2, w1)
        else Some (None, s2, w1))))"

section \<open>File names, characterised\<close>

text \<open>The three checks together: the regular expression already excludes both separators.\<close>

lemma name_char_no_sep:
  "\<not> name_char (CHR ''/'')" "\<not> name_char (CHR 0x5C)" "\<not> alnum (CHR ''.'')"
  by (simp_all add: name_char_def alnum_def)

lemma alnum_name_char: "alnum c \<Longrightarrow> name_char c"
  by (simp add: name_char_def)

lemma filenameRegex_chars: "filenameRegex name \<Longrightarrow> c \<in> set name \<Longrightarrow> name_char c"
  by (cases name) (auto simp: list_all_iff alnum_name_char)

lemma ValidateFilename_None:
  "ValidateFilename name = None \<longleftrightarrow>
     filenameRegex name \<and> \<not> HasSuffix name ''.tmp'' \<and> \<not> HasSuffix name ''.part''"
proof -
  have "filenameRegex name \<Longrightarrow> CHR ''/'' \<notin> set name \<and> CHR 0x5C \<notin> set name"
    using filenameRegex_chars name_char_no_sep by blast
  then show ?thesis by (auto simp: ValidateFilename_def)
qed

lemma valid_name_length: "ValidateFilename name = None \<Longrightarrow> 1 \<le> length name \<and> length name \<le> 200"
  by (cases name) (auto simp: ValidateFilename_None)

lemma valid_name_first: "ValidateFilename name = None \<Longrightarrow> name \<noteq> [] \<and> alnum (hd name)"
  by (cases name) (auto simp: ValidateFilename_None)

lemma ValidateFilename_Some:
  "ValidateFilename name = Some e \<Longrightarrow> errors_Is e ErrInvalidFilename"
  by (auto simp: ValidateFilename_def ErrInvalidFilename_def split: if_splits)

section \<open>The header as a codec\<close>

definition header_bytes :: "string \<Rightarrow> u64 \<Rightarrow> byte list" where
  "header_bytes name sz = MagicBytes @ PutUint16 (of_nat (length name)) @ bytes_of name @ PutUint64 sz"

definition size_allowed :: "u64 \<Rightarrow> u64 \<Rightarrow> bool" where
  "size_allowed maxSize sz \<longleftrightarrow> maxSize = 0 \<or> sz \<le> maxSize"

lemma size_allowed_iff: "size_allowed maxSize sz \<longleftrightarrow> \<not> (maxSize > 0 \<and> sz > maxSize)"
  by (auto simp: size_allowed_def word_neq_0_conv not_less)

lemma length_MagicBytes [codec, simp]: "length MagicBytes = 4"
  by (simp add: MagicBytes_def)

lemma nonempty_fields:
  "MagicBytes \<noteq> []" "PutUint16 v \<noteq> []" "PutUint64 w \<noteq> []" "bytes_of name = [] \<longleftrightarrow> name = []"
  by (simp_all add: MagicBytes_def PutUint16_def PutUint64_def bytes_of_def)

lemma magic_loop:
  "length m = 4 \<Longrightarrow> list_ex (\<lambda>i. m ! i \<noteq> MagicBytes ! i) [0..<4] \<longleftrightarrow> m \<noteq> MagicBytes"
  by (auto simp: list_ex_iff list_eq_iff_nth_eq MagicBytes_def)

lemma Uint16_name_length:
  "length name \<le> 200 \<Longrightarrow> unat (of_nat (length name) :: u16) = length name"
  by (simp add: unat_of_nat take_bit_eq_mod)

lemma length_header_bytes: "length (header_bytes name sz) = 14 + length name"
  by (simp add: header_bytes_def)

lemma WriteRequestHeader_valid:
  "ValidateFilename name = None \<Longrightarrow>
   WriteRequestHeader wr w name sz = (case wr w (header_bytes name sz) of (_, err, w') \<Rightarrow> (err, w'))"
  using valid_name_length [of name]
  by (auto simp: WriteRequestHeader_def header_bytes_def MaxFilenameLen_def Let_def split: prod.splits)

context go_reader
begin

lemma ReadRequestHeader_returns:
  "\<exists>name sz r s'. ReadRequestHeader rd s maxSize = Some (name, sz, r, s') \<and> frame s' = frame s"
proof (cases rule: ReadFull_cases [of s 4])
  case 1: (full m s1)
  show ?thesis
  proof (cases rule: ReadFull_cases [of s1 2])
    case 2: (full l s2)
    show ?thesis
    proof (cases rule: ReadFull_cases [of s2 "unat (Uint16 l)"])
      case 3: (full nb s3)
      show ?thesis
        by (cases rule: ReadFull_cases [of s3 8])
           (use 1 2 3 in \<open>auto simp: ReadRequestHeader_def Let_def split: option.splits\<close>)
    qed (use 1 2 in \<open>auto simp: ReadRequestHeader_def Let_def\<close>)
  qed (use 1 in \<open>auto simp: ReadRequestHeader_def\<close>)
qed (auto simp: ReadRequestHeader_def)

text \<open>A header that is accepted was read in four pieces.\<close>

lemma ReadRequestHeader_pieces:
  assumes ok: "ReadRequestHeader rd s maxSize = Some (name, sz, None, s')"
  obtains s1 s2 s3 where "ReadFull rd s 4 = Some (MagicBytes, None, s1)"
    "ReadFull rd s1 2 = Some (PutUint16 (of_nat (length name)), None, s2)"
    "ReadFull rd s2 (length name) = Some (bytes_of name, None, s3)"
    "ReadFull rd s3 8 = Some (PutUint64 sz, None, s')"
    "ValidateFilename name = None" "size_allowed maxSize sz"
proof -
  from ok obtain m s1 where 1: "ReadFull rd s 4 = Some (m, None, s1)" "length m = 4"
    by (cases rule: ReadFull_cases [of s 4]) (auto simp: ReadRequestHeader_def)
  with ok have m: "m = MagicBytes"
    using magic_loop [of m] by (auto simp: ReadRequestHeader_def split: if_splits)
  from ok 1 m obtain l s2 where 2: "ReadFull rd s1 2 = Some (l, None, s2)" "length l = 2"
    by (cases rule: ReadFull_cases [of s1 2]) (auto simp: ReadRequestHeader_def)
  from ok 1 2 m have nl: "Uint16 l \<noteq> 0" "unat (Uint16 l) \<le> MaxFilenameLen"
    by (auto simp: ReadRequestHeader_def Let_def split: if_splits)
  from ok 1 2 m nl obtain nb s3 where 3: "ReadFull rd s2 (unat (Uint16 l)) = Some (nb, None, s3)"
      "length nb = unat (Uint16 l)"
    by (cases rule: ReadFull_cases [of s2 "unat (Uint16 l)"]) (auto simp: ReadRequestHeader_def Let_def)
  from ok 1 2 3 m nl have v: "ValidateFilename (string_of nb) = None"
    by (auto simp: ReadRequestHeader_def Let_def split: option.splits)
  from ok 1 2 3 m nl v obtain sb where 4: "ReadFull rd s3 8 = Some (sb, None, s')" "length sb = 8"
    and res: "name = string_of nb" "sz = Uint64 sb" "size_allowed maxSize sz"
    by (cases rule: ReadFull_cases [of s3 8])
       (auto simp: ReadRequestHeader_def Let_def size_allowed_iff split: if_splits)
  show thesis
    by (rule that [of s1 s2 s3])
       (use 1 2 3 4 m v res in \<open>simp_all add: PutUint16_Uint16 PutUint64_Uint64\<close>)
qed

lemma ReadFull_full_stream:
  "ReadFull rd s n = Some (d, None, s') \<Longrightarrow> stream s = (d @ fst (stream s'), snd (stream s'))"
  by (cases rule: ReadFull_cases [of s n]) auto

lemma ReadRequestHeader_sound:
  assumes ok: "ReadRequestHeader rd s maxSize = Some (name, sz, None, s')"
  shows "stream s = (header_bytes name sz @ fst (stream s'), snd (stream s')) \<and>
    ValidateFilename name = None \<and> size_allowed maxSize sz"
  using ok by (rule ReadRequestHeader_pieces)
    (drule ReadFull_full_stream, drule ReadFull_full_stream, drule ReadFull_full_stream,
     drule ReadFull_full_stream, simp add: header_bytes_def)

lemma ReadRequestHeader_complete:
  assumes st: "stream s = (header_bytes name sz @ rest, e)"
    and v: "ValidateFilename name = None" and sz: "size_allowed maxSize sz"
  obtains s' where "ReadRequestHeader rd s maxSize = Some (name, sz, None, s')"
    "stream s' = (rest, e)" "frame s' = frame s"
proof -
  note n = valid_name_length [OF v] and u = Uint16_name_length [of name]
  obtain s1 where 1: "ReadFull rd s 4 = Some (MagicBytes, None, s1)"
      "stream s1 = (PutUint16 (of_nat (length name)) @ bytes_of name @ PutUint64 sz @ rest, e)" "frame s1 = frame s"
    by (rule ReadFull_enough [OF st, of 4]) (simp_all add: header_bytes_def)
  obtain s2 where 2: "ReadFull rd s1 2 = Some (PutUint16 (of_nat (length name)), None, s2)"
      "stream s2 = (bytes_of name @ PutUint64 sz @ rest, e)" "frame s2 = frame s1"
    by (rule ReadFull_enough [OF 1(2), of 2]) simp_all
  obtain s3 where 3: "ReadFull rd s2 (length name) = Some (bytes_of name, None, s3)"
      "stream s3 = (PutUint64 sz @ rest, e)" "frame s3 = frame s2"
    by (rule ReadFull_enough [OF 2(2), of "length name"]) simp_all
  obtain s4 where 4: "ReadFull rd s3 8 = Some (PutUint64 sz, None, s4)"
      "stream s4 = (rest, e)" "frame s4 = frame s3"
    by (rule ReadFull_enough [OF 3(2), of 8]) simp_all
  have "(of_nat (length name) :: u16) \<noteq> 0"
    using n u by (metis not_one_le_zero unat_0)
  then have "ReadRequestHeader rd s maxSize = Some (name, sz, None, s4)"
    using 1 2 3 4 n u v sz
    by (simp add: ReadRequestHeader_def magic_loop MaxFilenameLen_def size_allowed_iff Let_def)
  then show thesis using that 1 2 3 4 by simp
qed

lemma ReadRequestHeader_truncated:
  assumes st: "stream s = (take k (header_bytes name sz), EOF)" and k: "k < 14 + length name"
    and v: "ValidateFilename name = None"
  shows "\<exists>s'. ReadRequestHeader rd s maxSize =
    Some ('''', 0, Some (if k \<in> {0, 4, 6, 6 + length name} then EOF else ErrUnexpectedEOF), s')"
proof -
  note n = valid_name_length [OF v] and u = Uint16_name_length [of name]
  have ne: "(of_nat (length name) :: u16) \<noteq> 0"
    using n u by (metis not_one_le_zero unat_0)
  have bs: "take k (header_bytes name sz) = take k MagicBytes @
      take (k - 4) (PutUint16 (of_nat (length name))) @ take (k - 6) (bytes_of name) @
      take (k - (6 + length name)) (PutUint64 sz)"
    by (simp add: header_bytes_def)
  consider (a) "k < 4" | (b) "4 \<le> k" "k < 6" | (c) "6 \<le> k" "k < 6 + length name"
    | (d) "6 + length name \<le> k" by linarith
  then show ?thesis
  proof cases
    case a
    with st bs have "stream s = (take k MagicBytes, EOF)" by simp
    then obtain s' where
      "ReadFull rd s 4 = Some (take k MagicBytes, Some (if k = 0 then EOF else ErrUnexpectedEOF), s')"
      by (rule ReadFull_short [where n = 4]) (use a in \<open>auto simp: nonempty_fields split: if_splits\<close>)
    with a show ?thesis by (auto simp: ReadRequestHeader_def)
  next
    case b
    obtain s1 where 1: "ReadFull rd s 4 = Some (MagicBytes, None, s1)"
      "stream s1 = (take (k - 4) (PutUint16 (of_nat (length name))), EOF)"
      by (rule ReadFull_enough [OF st, of 4]) (use b in \<open>simp_all add: bs\<close>)
    obtain s' where
      "ReadFull rd s1 2 = Some (take (k - 4) (PutUint16 (of_nat (length name))),
         Some (if k = 4 then EOF else ErrUnexpectedEOF), s')"
      by (rule ReadFull_short [OF 1(2), of 2]) (use b in \<open>auto simp: nonempty_fields split: if_splits\<close>)
    with b 1 show ?thesis by (auto simp: ReadRequestHeader_def)
  next
    case c
    obtain s1 where 1: "ReadFull rd s 4 = Some (MagicBytes, None, s1)"
      "stream s1 = (PutUint16 (of_nat (length name)) @ take (k - 6) (bytes_of name), EOF)"
      by (rule ReadFull_enough [OF st, of 4]) (use c in \<open>simp_all add: bs\<close>)
    obtain s2 where 2: "ReadFull rd s1 2 = Some (PutUint16 (of_nat (length name)), None, s2)"
      "stream s2 = (take (k - 6) (bytes_of name), EOF)"
      by (rule ReadFull_enough [OF 1(2), of 2]) simp_all
    obtain s' where
      "ReadFull rd s2 (length name) = Some (take (k - 6) (bytes_of name),
         Some (if k = 6 then EOF else ErrUnexpectedEOF), s')"
      by (rule ReadFull_short [OF 2(2), of "length name"])
         (use c n in \<open>auto simp: nonempty_fields split: if_splits\<close>)
    with c 1 2 n u ne show ?thesis
      by (auto simp: ReadRequestHeader_def Let_def MaxFilenameLen_def)
  next
    case d
    obtain s1 where 1: "ReadFull rd s 4 = Some (MagicBytes, None, s1)"
      "stream s1 = (PutUint16 (of_nat (length name)) @ bytes_of name @
        take (k - (6 + length name)) (PutUint64 sz), EOF)"
      by (rule ReadFull_enough [OF st, of 4]) (use d in \<open>simp_all add: bs\<close>)
    obtain s2 where 2: "ReadFull rd s1 2 = Some (PutUint16 (of_nat (length name)), None, s2)"
      "stream s2 = (bytes_of name @ take (k - (6 + length name)) (PutUint64 sz), EOF)"
      by (rule ReadFull_enough [OF 1(2), of 2]) simp_all
    obtain s3 where 3: "ReadFull rd s2 (length name) = Some (bytes_of name, None, s3)"
      "stream s3 = (take (k - (6 + length name)) (PutUint64 sz), EOF)"
      by (rule ReadFull_enough [OF 2(2), of "length name"]) simp_all
    obtain s' where
      "ReadFull rd s3 8 = Some (take (k - (6 + length name)) (PutUint64 sz),
         Some (if k = 6 + length name then EOF else ErrUnexpectedEOF), s')"
      by (rule ReadFull_short [OF 3(2), of 8])
         (use k d in \<open>auto simp: nonempty_fields split: if_splits\<close>)
    with d 1 2 3 n u ne v show ?thesis
      by (auto simp: ReadRequestHeader_def Let_def MaxFilenameLen_def)
  qed
qed

section \<open>Response frames\<close>

lemma ReadResponse_returns: "\<exists>r s'. ReadResponse rd s = Some (r, s') \<and> frame s' = frame s"
proof (cases rule: ReadFull_cases [of s 1])
  case 1: (full c s1)
  show ?thesis
  proof (cases rule: ReadFull_cases [of s1 2])
    case 2: (full l s2)
    show ?thesis
      by (cases rule: ReadFull_cases [of s2 "unat (Uint16 l)"])
         (use 1 2 in \<open>auto simp: ReadResponse_def\<close>)
  qed (use 1 in \<open>auto simp: ReadResponse_def\<close>)
qed (auto simp: ReadResponse_def)

lemma ReadResponse_ack:
  assumes "stream s = (AckByte # rest, e)"
  obtains s' where "ReadResponse rd s = Some (None, s')" "stream s' = (rest, e)" "frame s' = frame s"
proof -
  obtain s1 where "ReadFull rd s 1 = Some ([AckByte], None, s1)" "stream s1 = (rest, e)" "frame s1 = frame s"
    by (rule ReadFull_enough [OF assms, of 1]) simp_all
  then show thesis by (intro that [of s1]) (simp_all add: ReadResponse_def)
qed

lemma ReadResponse_nack:
  assumes "stream s = (nack_frame msg @ rest, e)"
  obtains s' where "ReadResponse rd s = Some (Some (New (''receiver nack: '' @ take 65535 msg)), s')"
    "stream s' = (rest, e)" "frame s' = frame s"
proof -
  define m where "m = take 65535 (bytes_of msg)"
  have len: "length m \<le> 65535" by (simp add: m_def)
  have u: "unat (of_nat (length m) :: u16) = length m"
    using len by (simp add: unat_of_nat take_bit_eq_mod)
  have fr: "nack_frame msg = NackByte # PutUint16 (of_nat (length m)) @ m"
    by (simp add: nack_frame_def m_def Let_def min_def)
  obtain s1 where 1: "ReadFull rd s 1 = Some ([NackByte], None, s1)"
    "stream s1 = (PutUint16 (of_nat (length m)) @ m @ rest, e)" "frame s1 = frame s"
    by (rule ReadFull_enough [OF assms, of 1]) (simp_all add: fr)
  obtain s2 where 2: "ReadFull rd s1 2 = Some (PutUint16 (of_nat (length m)), None, s2)"
    "stream s2 = (m @ rest, e)" "frame s2 = frame s1"
    by (rule ReadFull_enough [OF 1(2), of 2]) simp_all
  obtain s3 where 3: "ReadFull rd s2 (length m) = Some (m, None, s3)"
    "stream s3 = (rest, e)" "frame s3 = frame s2"
    by (rule ReadFull_enough [OF 2(2), of "length m"]) simp_all
  have "string_of m = take 65535 msg"
    by (simp add: m_def bytes_of_def string_of_def comp_def flip: take_map)
  with 1 2 3 u show thesis
    by (intro that [of s3]) (simp_all add: ReadResponse_def AckByte_def NackByte_def)
qed

lemma ReadResponse_ok_ack:
  assumes "ReadResponse rd s = Some (None, s')"
  shows "stream s = (AckByte # fst (stream s'), snd (stream s'))"
proof -
  from assms obtain c s1 where 1: "ReadFull rd s 1 = Some (c, None, s1)" "length c = 1"
    "stream s = (c @ fst (stream s1), snd (stream s1))"
    by (cases rule: ReadFull_cases [of s 1]) (auto simp: ReadResponse_def)
  from assms 1 have "c ! 0 = AckByte \<and> s' = s1"
    by (auto simp: ReadResponse_def split: if_splits option.splits prod.splits)
  with 1 show ?thesis by (cases c) auto
qed

end

section \<open>Payload streams\<close>

lemma checksum_loop:
  assumes "length a = HashSize" "length b = HashSize"
  shows "list_ex (\<lambda>i. a ! i \<noteq> b ! i) [0..<HashSize] \<longleftrightarrow> a \<noteq> b"
  using assms by (auto simp: list_ex_iff list_eq_iff_nth_eq)

lemma length_sha256_HashSize [codec]: "length (sha256 m) = HashSize"
  by (simp add: HashSize_def)

lemma sint_payload: "sint (v :: u64) = (if unat v < 2 ^ 63 then int (unat v) else int (unat v) - 2 ^ 64)"
proof -
  define n where "n = unat v"
  have "unat v < 2 ^ LENGTH(64)" by (rule unsigned_less)
  then have lt: "n < 2 ^ 64" by (simp add: n_def)
  have "sint (word_of_int (int n) :: u64) = (int n + 2 ^ 63) mod 2 ^ 64 - 2 ^ 63"
    by (subst int_word_sint) simp
  moreover have "(word_of_int (int n) :: u64) = v" by (simp add: n_def)
  ultimately have eq: "sint v = (int n + 2 ^ 63) mod 2 ^ 64 - 2 ^ 63" by simp
  show ?thesis
  proof (cases "n < 2 ^ 63")
    case True
    then have "(int n + 2 ^ 63) mod 2 ^ 64 = int n + 2 ^ 63" by (intro mod_pos_pos_trivial) auto
    then show ?thesis using eq True unfolding n_def by simp
  next
    case False
    have "(int n + 2 ^ 63) mod 2 ^ 64 = (int n + 2 ^ 63 - 2 ^ 64) mod 2 ^ 64"
      by (rule minus_mod_self2 [symmetric])
    also have "\<dots> = int n + 2 ^ 63 - 2 ^ 64" using lt False by (intro mod_pos_pos_trivial) auto
    finally show ?thesis using eq False unfolding n_def by simp
  qed
qed

lemma unat_u64_less: "unat (v :: u64) < 2 ^ 64"
proof -
  have "unat v < 2 ^ LENGTH(64)" by (rule unsigned_less)
  then show ?thesis by simp
qed

lemma unat_of_nat_u64: "n < 2 ^ 64 \<Longrightarrow> unat (of_nat n :: u64) = n"
  by (simp add: unat_of_nat take_bit_eq_mod)

text \<open>
  How many bytes a successful limited copy delivers: the announced size, which is then below
  \<open>2\<^sup>6\<^sup>3\<close>. A larger announcement turns into a negative limit and the copy stays empty.
\<close>

lemma limited_payload:
  "limited (bs, e) (sint (v :: u64)) =
     (if unat v < 2 ^ 63 then if unat v \<le> length bs then (take (unat v) bs, EOF) else (bs, e)
      else ([], EOF))"
proof (cases "unat v < 2 ^ 63")
  case True
  then have "sint v = int (unat v)" by (simp add: sint_payload)
  with True show ?thesis by (simp only: limited_def fst_conv zle_int nat_int if_True)
next
  case False
  have "sint v = int (unat v) - 2 ^ 64" using False by (simp add: sint_payload del: of_nat_unat)
  moreover have "int (unat v) < 2 ^ 64" using unat_u64_less [of v] by (simp del: of_nat_unat)
  ultimately have "sint v < 0" by linarith
  with False show ?thesis by (simp add: limited_def)
qed

lemma limited_full:
  assumes "of_nat (length (fst (limited (bs, e) (sint (v :: u64))))) = v"
  shows "unat v \<le> length bs \<and> unat v < 2 ^ 63 \<and> length (fst (limited (bs, e) (sint v))) = unat v"
proof (cases "unat v < 2 ^ 63")
  case small: True
  show ?thesis
  proof (cases "unat v \<le> length bs")
    case False
    with small assms have "of_nat (length bs) = v" by (simp add: limited_payload)
    moreover have "length bs < 2 ^ 64"
      using False small less_trans [of "length bs" "2 ^ 63" "2 ^ 64"] by simp
    ultimately have "unat v = length bs" using unat_of_nat_u64 [of "length bs"] by simp
    with False show ?thesis by simp
  qed (use small in \<open>simp add: limited_payload\<close>)
next
  case False
  with assms show ?thesis by (auto simp: limited_payload)
qed

context go_pipe
begin

lemma SendStream_copied:
  assumes "stream s = (bs, e)"
  obtains m r s1 h w1 where
    "CopyBuffer (TeeReader rd) wr BufferSize 0 (s, []) w = Some (m, r, (s1, h), w1)"
    "m \<le> length bs" "out w1 = out w @ take m bs" "frame s1 = frame s"
    "r = None \<Longrightarrow> m = length bs \<and> h = bs \<and> e = EOF"
    "\<And>j. room w (length bs + j) \<Longrightarrow> m = length bs \<and> r = end_error e \<and> room w1 j"
  using copy_all [OF _ assms, of BufferSize w] by (force simp: BufferSize_def)

lemma SendStream_returns:
  "\<exists>chk r s' w'. SendStream wr rd w s v = Some (chk, r, s', w') \<and> prefix (out w) (out w')"
proof -
  obtain bs e where st: "stream s = (bs, e)" by fastforce
  obtain m r s1 h w1 where c: "CopyBuffer (TeeReader rd) wr BufferSize 0 (s, []) w = Some (m, r, (s1, h), w1)"
    and o: "out w1 = out w @ take m bs"
    by (rule SendStream_copied [OF st, where w = w]) (rule that)
  obtain n ew w2 where w2: "wr w1 (sha256 h) = (n, ew, w2)" by (metis prod_cases3)
  then have "prefix (out w1) (out w2)"
    by (cases ew) (auto dest: write_ok write_err)
  with c o w2 show ?thesis
    by (cases r; cases ew) (auto simp: SendStream_def Let_def dest: append_prefixD)
qed

lemma SendStream_sound:
  assumes "SendStream wr rd w s v = Some (chk, None, s', w')"
  shows "snd (stream s) = EOF \<and> of_nat (length (fst (stream s))) = v \<and> chk = sha256 (fst (stream s)) \<and>
    out w' = out w @ fst (stream s) @ sha256 (fst (stream s)) \<and> frame s' = frame s"
proof -
  obtain bs e where st: "stream s = (bs, e)" by fastforce
  obtain m r s1 h w1 where c: "CopyBuffer (TeeReader rd) wr BufferSize 0 (s, []) w = Some (m, r, (s1, h), w1)"
    and o: "out w1 = out w @ take m bs" "frame s1 = frame s"
    and ok: "r = None \<Longrightarrow> m = length bs \<and> h = bs \<and> e = EOF"
    by (rule SendStream_copied [OF st, where w = w]) (rule that)
  obtain n ew w2 where w2: "wr w1 (sha256 h) = (n, ew, w2)" by (metis prod_cases3)
  have "r = None \<and> of_nat m = v \<and> ew = None \<and> chk = sha256 h \<and> w' = w2 \<and> s' = s1"
    using assms c w2 by (cases r; cases ew) (auto simp: SendStream_def Let_def split: if_splits)
  with ok o st w2 write_ok [of w1 "sha256 h" n w2] show ?thesis by auto
qed

lemma SendStream_complete:
  assumes st: "stream s = (bs, EOF)" and sz: "of_nat (length bs) = v" and rm: "room w (length bs + HashSize)"
  obtains s' w' where "SendStream wr rd w s v = Some (sha256 bs, None, s', w')"
    "out w' = out w @ bs @ sha256 bs" "frame s' = frame s"
proof -
  obtain m r s1 h w1 where c: "CopyBuffer (TeeReader rd) wr BufferSize 0 (s, []) w = Some (m, r, (s1, h), w1)"
    and o: "out w1 = out w @ take m bs" "frame s1 = frame s"
    and ok: "r = None \<Longrightarrow> m = length bs \<and> h = bs \<and> EOF = EOF"
    and room: "\<And>j. room w (length bs + j) \<Longrightarrow> m = length bs \<and> r = end_error EOF \<and> room w1 j"
    by (rule SendStream_copied [OF st, where w = w]) (rule that)
  from room [OF rm] have r: "r = None" "m = length bs" "room w1 HashSize"
    by (simp_all add: end_error_def)
  from write_room [OF r(3), of "sha256 h"] obtain w2 where
    w2: "wr w1 (sha256 h) = (length (sha256 h), None, w2)" by (auto simp: HashSize_def)
  show thesis
  proof (rule that)
    show "SendStream wr rd w s v = Some (sha256 bs, None, s1, w2)"
      using c r ok sz w2 by (simp add: SendStream_def Let_def)
    show "out w2 = out w @ bs @ sha256 bs"
      using write_ok [OF w2] o r ok by simp
  qed (rule o)
qed

lemma ReceiveStream_copied:
  assumes "0 < buf" "stream s = (bs, e)"
  obtains m r s1 N1 h w1 where
    "CopyBuffer (TeeReader (LimitReader rd)) wr buf 0 ((s, N), []) w = Some (m, r, ((s1, N1), h), w1)"
    "m \<le> length (fst (limited (bs, e) N))" "out w1 = out w @ take m bs" "frame s1 = frame s"
    "r = None \<Longrightarrow> m = length (fst (limited (bs, e) N)) \<and> h = take m bs \<and> stream s1 = (drop m bs, e)"
    "\<And>j. room w (length (fst (limited (bs, e) N)) + j) \<Longrightarrow>
        m = length (fst (limited (bs, e) N)) \<and> r = end_error (snd (limited (bs, e) N)) \<and> room w1 j"
proof -
  from copy_limited [OF assms, of N w] obtain m r s1 N1 h w1 where *:
    "CopyBuffer (TeeReader (LimitReader rd)) wr buf 0 ((s, N), []) w = Some (m, r, ((s1, N1), h), w1)"
    "m \<le> length (fst (limited (bs, e) N))" "out w1 = out w @ take m bs" "frame s1 = frame s"
    "r = None \<longrightarrow> m = length (fst (limited (bs, e) N)) \<and> h = take m bs \<and> stream s1 = (drop m bs, e)"
    "\<forall>j. room w (length (fst (limited (bs, e) N)) + j) \<longrightarrow>
        m = length (fst (limited (bs, e) N)) \<and> r = end_error (snd (limited (bs, e) N)) \<and> room w1 j"
    by (elim exE conjE) (rule that)
  show thesis
    by (rule that [OF *(1-4)]) (use *(5,6) in blast)+
qed

text \<open>
  Whatever arrives, the call returns, and the destination has received a prefix of the stream no
  longer than the announced size.
\<close>

lemma ReceiveStream_returns:
  assumes buf: "0 < buf"
  shows "\<exists>r s' w' m. ReceiveStream buf wr rd w s v = Some (r, s', w') \<and> frame s' = frame s
    \<and> out w' = out w @ take m (fst (stream s)) \<and> m \<le> unat v"
proof -
  obtain bs e where st: "stream s = (bs, e)" by fastforce
  obtain m r s1 N1 h w1 where
    c: "CopyBuffer (TeeReader (LimitReader rd)) wr buf 0 ((s, sint v), []) w = Some (m, r, ((s1, N1), h), w1)"
    and m: "m \<le> length (fst (limited (bs, e) (sint v)))"
    and o: "out w1 = out w @ take m bs" and fr: "frame s1 = frame s"
    by (rule ReceiveStream_copied [OF buf st, where w = w and N = "sint v"]) (rule that)
  have "m \<le> unat v"
    using m by (auto simp: limited_payload split: if_splits)
  with c o fr st show ?thesis
    by (cases r; cases rule: ReadFull_cases [of s1 HashSize])
       (auto simp: ReceiveStream_def Let_def)
qed

text \<open>Success means that the stream was a payload of the announced size and its digest.\<close>

lemma ReceiveStream_ok:
  assumes buf: "0 < buf" and ok: "ReceiveStream buf wr rd w s v = Some (None, s', w')"
  obtains p s1 N1 where
    "CopyBuffer (TeeReader (LimitReader rd)) wr buf 0 ((s, sint v), []) w = Some (length p, None, ((s1, N1), p), w')"
    "stream s = (p @ fst (stream s1), snd (stream s1))"
    "ReadFull rd s1 HashSize = Some (sha256 p, None, s')" "length p = unat v" "unat v < 2 ^ 63"
    "out w' = out w @ p" "frame s' = frame s"
proof -
  obtain bs e where st: "stream s = (bs, e)" by fastforce
  obtain m r s1 N1 h w1 where
    c: "CopyBuffer (TeeReader (LimitReader rd)) wr buf 0 ((s, sint v), []) w = Some (m, r, ((s1, N1), h), w1)"
    and o: "out w1 = out w @ take m bs" and fr: "frame s1 = frame s"
    and rN: "r = None \<Longrightarrow> m = length (fst (limited (bs, e) (sint v))) \<and> h = take m bs \<and> stream s1 = (drop m bs, e)"
    by (rule ReceiveStream_copied [OF buf st, where w = w and N = "sint v"]) (rule that)
  from ok c have r: "r = None" "of_nat m = v"
    by (cases r; auto simp: ReceiveStream_def split: if_splits)+
  with rN have m: "m = length (fst (limited (bs, e) (sint v)))" and h: "h = take m bs"
    and s1: "stream s1 = (drop m bs, e)" by auto
  note lf = limited_full [of bs e v, folded m, OF r(2)]
  from ok c r obtain t where t: "ReadFull rd s1 HashSize = Some (t, None, s')" "length t = HashSize"
      "frame s' = frame s1"
    and w': "w' = w1"
    by (cases rule: ReadFull_cases [of s1 HashSize])
       (auto simp: ReceiveStream_def Let_def split: if_splits)
  have "t = sha256 h"
    using ok c r t checksum_loop [OF length_sha256_HashSize t(2), of h]
    by (auto simp: ReceiveStream_def Let_def split: if_splits)
  moreover have "length h = m" using lf h by auto
  ultimately show thesis
    using lf o w' fr t r c st s1 h by (intro that [of h s1 N1]) auto
qed

lemma ReceiveStream_sound:
  assumes buf: "0 < buf" and ok: "ReceiveStream buf wr rd w s v = Some (None, s', w')"
  obtains p where "stream s = (p @ sha256 p @ fst (stream s'), snd (stream s'))" "length p = unat v"
    "unat v < 2 ^ 63" "out w' = out w @ p" "frame s' = frame s"
  using assms by (rule ReceiveStream_ok) (drule ReadFull_full_stream, rule that, simp_all)

lemma ReceiveStream_complete:
  assumes buf: "0 < buf" and st: "stream s = (p @ sha256 p @ rest, e)"
    and v: "v = of_nat (length p)" and lp: "length p < 2 ^ 63" and rm: "room w (length p)"
  obtains s' w' where "ReceiveStream buf wr rd w s v = Some (None, s', w')"
    "stream s' = (rest, e)" "out w' = out w @ p" "frame s' = frame s"
proof -
  have uv: "unat v = length p" using v lp by (simp add: unat_of_nat_u64)
  have lim: "limited (p @ sha256 p @ rest, e) (sint v) = (p, EOF)"
    using uv lp by (simp add: limited_payload)
  obtain m r s1 N1 h w1 where
    c: "CopyBuffer (TeeReader (LimitReader rd)) wr buf 0 ((s, sint v), []) w = Some (m, r, ((s1, N1), h), w1)"
    and o: "out w1 = out w @ take m (p @ sha256 p @ rest)" and fr: "frame s1 = frame s"
    and rN: "r = None \<Longrightarrow> m = length (fst (limited (p @ sha256 p @ rest, e) (sint v))) \<and>
      h = take m (p @ sha256 p @ rest) \<and> stream s1 = (drop m (p @ sha256 p @ rest), e)"
    and room: "\<And>j. room w (length (fst (limited (p @ sha256 p @ rest, e) (sint v))) + j) \<Longrightarrow>
        m = length (fst (limited (p @ sha256 p @ rest, e) (sint v))) \<and>
        r = end_error (snd (limited (p @ sha256 p @ rest, e) (sint v))) \<and> room w1 j"
    by (rule ReceiveStream_copied [OF buf st, where w = w and N = "sint v"]) (rule that)
  from room [of 0] rm lim have r: "r = None" "m = length p" by (simp_all add: end_error_def)
  with rN have h: "h = p" and s1: "stream s1 = (sha256 p @ rest, e)" by simp_all
  obtain s2 where t: "ReadFull rd s1 HashSize = Some (sha256 p, None, s2)" "stream s2 = (rest, e)" "frame s2 = frame s1"
    by (rule ReadFull_enough [OF s1, of HashSize]) (simp_all add: HashSize_def)
  show thesis
  proof (rule that)
    show "ReceiveStream buf wr rd w s v = Some (None, s2, w1)"
      using c r h t v by (simp add: ReceiveStream_def)
  qed (use t o r fr in simp_all)
qed

lemma ReceiveStream_corrupt:
  assumes buf: "0 < buf" and st: "stream s = (p @ t @ rest, e)" and t: "length t = HashSize" "t \<noteq> sha256 p"
    and v: "v = of_nat (length p)" and lp: "length p < 2 ^ 63" and rm: "room w (length p)"
  obtains s' w' where "ReceiveStream buf wr rd w s v = Some (Some ErrChecksumMismatch, s', w')" "frame s' = frame s"
proof -
  have uv: "unat v = length p" using v lp by (simp add: unat_of_nat_u64)
  have lim: "limited (p @ t @ rest, e) (sint v) = (p, EOF)"
    using uv lp by (simp add: limited_payload)
  obtain m r s1 N1 h w1 where
    c: "CopyBuffer (TeeReader (LimitReader rd)) wr buf 0 ((s, sint v), []) w = Some (m, r, ((s1, N1), h), w1)"
    and fr: "frame s1 = frame s"
    and rN: "r = None \<Longrightarrow> m = length (fst (limited (p @ t @ rest, e) (sint v))) \<and>
      h = take m (p @ t @ rest) \<and> stream s1 = (drop m (p @ t @ rest), e)"
    and room: "\<And>j. room w (length (fst (limited (p @ t @ rest, e) (sint v))) + j) \<Longrightarrow>
        m = length (fst (limited (p @ t @ rest, e) (sint v))) \<and>
        r = end_error (snd (limited (p @ t @ rest, e) (sint v))) \<and> room w1 j"
    by (rule ReceiveStream_copied [OF buf st, where w = w and N = "sint v"]) (rule that)
  from room [of 0] rm lim have r: "r = None" "m = length p" by (simp_all add: end_error_def)
  with rN have h: "h = p" and s1: "stream s1 = (t @ rest, e)" by simp_all
  obtain s2 where t2: "ReadFull rd s1 HashSize = Some (t, None, s2)" "frame s2 = frame s1"
    by (rule ReadFull_enough [OF s1, of HashSize]) (simp_all add: t(1))
  have "list_ex (\<lambda>i. sha256 p ! i \<noteq> t ! i) [0..<HashSize]"
    using checksum_loop [OF length_sha256_HashSize t(1), of p] t(2) by auto
  with c r h t2 v have "ReceiveStream buf wr rd w s v = Some (Some ErrChecksumMismatch, s2, w1)"
    by (simp add: ReceiveStream_def)
  with t2 fr show thesis by (intro that [of s2 w1]) auto
qed

end

section \<open>Request frames\<close>

text \<open>A whole request as it appears on the wire: header, payload and digest.\<close>

definition frame_bytes :: "string \<Rightarrow> byte list \<Rightarrow> byte list" where
  "frame_bytes name p = header_bytes name (of_nat (length p)) @ p @ sha256 p"

lemma frame_bytes_inj:
  assumes "frame_bytes n p = frame_bytes n' p'" "ValidateFilename n = None" "ValidateFilename n' = None"
    "length p < 2 ^ 63" "length p' < 2 ^ 63"
  shows "n = n' \<and> p = p'"
proof -
  note len = valid_name_length [OF assms(2)] valid_name_length [OF assms(3)]
  have "PutUint16 (of_nat (length n)) = PutUint16 (of_nat (length n'))"
    using assms(1) by (simp add: frame_bytes_def header_bytes_def PutUint16_def)
  then have ln: "length n = length n'"
    using len Uint16_name_length [of n] Uint16_name_length [of n'] by (metis Uint16_PutUint16)
  have "bytes_of n @ PutUint64 (of_nat (length p)) @ p @ sha256 p =
      bytes_of n' @ PutUint64 (of_nat (length p')) @ p' @ sha256 p'"
    using assms(1) unfolding frame_bytes_def header_bytes_def ln by simp
  then have bn: "bytes_of n = bytes_of n'"
    and "PutUint64 (of_nat (length p)) @ p @ sha256 p = PutUint64 (of_nat (length p')) @ p' @ sha256 p'"
    using ln by (metis append_eq_append_conv length_bytes_of)+
  then have sz: "PutUint64 (of_nat (length p)) = PutUint64 (of_nat (length p'))" and t: "p @ sha256 p = p' @ sha256 p'"
    by (metis append_eq_append_conv length_PutUint64)+
  from sz have "(of_nat (length p) :: u64) = of_nat (length p')" by (metis Uint64_PutUint64)
  moreover have "length p < 2 ^ 64" "length p' < 2 ^ 64" using assms(4,5) by simp_all
  ultimately have "length p = length p'" by (metis unat_of_nat_u64)
  with t bn show ?thesis by (metis append_eq_append_conv string_of_bytes_of)
qed

text \<open>A stream of frames can be cut in one way only.\<close>

lemma frame_bytes_prefix:
  assumes "frame_bytes n p @ x = frame_bytes n' p' @ y" "ValidateFilename n = None" "ValidateFilename n' = None"
    "length p < 2 ^ 63" "length p' < 2 ^ 63"
  shows "n = n' \<and> p = p' \<and> x = y"
proof -
  note len = valid_name_length [OF assms(2)] valid_name_length [OF assms(3)]
  define m where "m = (\<lambda>n p. bytes_of n @ PutUint64 (of_nat (length p)) @ p @ sha256 p)"
  have eq: "PutUint16 (of_nat (length n)) @ m n p @ x = PutUint16 (of_nat (length n')) @ m n' p' @ y"
    using assms(1) by (simp add: frame_bytes_def header_bytes_def m_def)
  then have "PutUint16 (of_nat (length n)) = PutUint16 (of_nat (length n'))"
    by (simp add: append_eq_append_conv)
  then have "length n = length n'"
    using len Uint16_name_length [of n] Uint16_name_length [of n'] by (metis Uint16_PutUint16)
  moreover from eq have "m n p @ x = m n' p' @ y" by (simp add: append_eq_append_conv)
  ultimately have tl: "PutUint64 (of_nat (length p)) @ (p @ sha256 p) @ x = PutUint64 (of_nat (length p')) @ (p' @ sha256 p') @ y"
    unfolding m_def by (simp add: append_eq_append_conv)
  then have "PutUint64 (of_nat (length p)) = PutUint64 (of_nat (length p'))"
    by (metis append_eq_append_conv length_PutUint64)
  then have "(of_nat (length p) :: u64) = of_nat (length p')" by (metis Uint64_PutUint64)
  moreover have "length p < 2 ^ 64" "length p' < 2 ^ 64" using assms(4,5) by simp_all
  ultimately have "length p = length p'" by (metis unat_of_nat_u64)
  then have "length (frame_bytes n p) = length (frame_bytes n' p')"
    using \<open>length n = length n'\<close> by (simp add: frame_bytes_def length_header_bytes)
  with assms(1) have "frame_bytes n p = frame_bytes n' p'" "x = y" by (simp_all add: append_eq_append_conv)
  with frame_bytes_inj [OF this(1) assms(2-)] show ?thesis by blast
qed

section \<open>What a call consumed\<close>

locale go_fed = go_reader rd stream rank frame + go_source rd pend
  for rd :: "'s reader" and stream rank and frame :: "'s \<Rightarrow> 'f" and pend
begin

lemma ReadRequestHeader_consumes:
  assumes "ReadRequestHeader rd s maxSize = Some (name, sz, None, s')"
  shows "pend s = header_bytes name sz @ pend s'"
  using assms by (rule ReadRequestHeader_pieces)
    (drule ReadFull_pend, drule ReadFull_pend, drule ReadFull_pend, drule ReadFull_pend,
     simp add: header_bytes_def)

lemma ReadResponse_consumes:
  assumes "ReadResponse rd s = Some (None, s')"
  shows "pend s = AckByte # pend s'"
proof -
  from assms obtain c s1 where 1: "ReadFull rd s 1 = Some (c, None, s1)" "length c = 1"
    by (cases rule: ReadFull_cases [of s 1]) (auto simp: ReadResponse_def)
  from assms 1 have "c ! 0 = AckByte \<and> s' = s1"
    by (auto simp: ReadResponse_def split: if_splits option.splits prod.splits)
  with ReadFull_pend [OF 1(1)] 1(2) show ?thesis by (cases c) auto
qed

end

locale go_fed_pipe = go_pipe rd stream rank frame wr out room + go_source rd pend
  for rd :: "'s reader" and stream rank and frame :: "'s \<Rightarrow> 'f" and pend
    and wr :: "'w writer" and out room
begin

lemma ReceiveStream_consumes:
  assumes "0 < buf" "ReceiveStream buf wr rd w s v = Some (None, s', w')"
  obtains p where "pend s = p @ sha256 p @ pend s'" "length p = unat v" "unat v < 2 ^ 63"
    "out w' = out w @ p" "frame s' = frame s"
  using assms by (rule ReceiveStream_ok) (drule copy_limited_pend, drule ReadFull_pend, rule that, simp_all)

end

text \<open>Whatever every read and write keeps, the protocol functions keep.\<close>

lemma ReadRequestHeader_invariant:
  assumes ret: "ReadRequestHeader rd s maxSize = Some (name, sz, r, s')" and start: "Q s"
    and rds: "\<And>s n d e s'. Q s \<Longrightarrow> rd s n = (d, e, s') \<Longrightarrow> Q s'"
  shows "Q s'"
proof -
  have full: "Q s2" if "ReadFull rd s1 n = Some (d, e, s2)" "Q s1" for s1 n d e s2
    using that rds by (rule ReadFull_invariant)
  show ?thesis
    using ret start unfolding ReadRequestHeader_def Let_def
    by (auto split: option.splits prod.splits if_splits dest: full)
qed

lemma ReceiveStream_invariant:
  assumes ret: "ReceiveStream buf wr rd w s v = Some (r, s', w')" and start: "Q s w"
    and rds: "\<And>s w n d e s'. Q s w \<Longrightarrow> rd s n = (d, e, s') \<Longrightarrow> Q s' w"
    and wrs: "\<And>s w b n e w'. Q s w \<Longrightarrow> wr w b = (n, e, w') \<Longrightarrow> Q s w'"
  shows "Q s' w'"
proof -
  from ret obtain m x s1 N h where
    copy: "CopyBuffer (TeeReader (LimitReader rd)) wr buf 0 ((s, sint v), []) w = Some (m, x, ((s1, N), h), w')"
    and rest: "s' = s1 \<or> (\<exists>d e. ReadFull rd s1 HashSize = Some (d, e, s'))"
    by (auto simp: ReceiveStream_def Let_def split: option.splits prod.splits if_splits)
  have "(\<lambda>((s, N), h). Q s) ((s1, N), h) w'"
    by (rule CopyBuffer_invariant [OF copy])
       (auto simp: start TeeReader_def LimitReader_def split: prod.splits if_splits intro: rds wrs)
  then have "Q s1 w'" by simp
  with rest show ?thesis
    using ReadFull_invariant [of rd s1 HashSize _ _ s' "\<lambda>s. Q s w'"] rds by blast
qed

lemma SendStream_invariant:
  assumes ret: "SendStream wr rd w s v = Some (chk, r, s', w')" and start: "Q w"
    and wrs: "\<And>w b n e w'. Q w \<Longrightarrow> wr w b = (n, e, w') \<Longrightarrow> Q w'"
  shows "Q w'"
proof -
  from ret obtain m x t h w1 where
    copy: "CopyBuffer (TeeReader rd) wr BufferSize 0 (s, []) w = Some (m, x, (t, h), w1)"
    and rest: "w' = w1 \<or> (\<exists>b n e. wr w1 b = (n, e, w'))"
    by (auto simp: SendStream_def Let_def split: option.splits prod.splits if_splits)
  have "(\<lambda>_. Q) (t, h) w1" by (rule CopyBuffer_invariant [OF copy]) (auto simp: start intro: wrs)
  with rest wrs show ?thesis by blast
qed

end
