(* ===== verification/Wire_Conn.thy ===== *)
theory Wire_Conn
  imports Wire
begin

text \<open>
  Connections in time: a \<^verbatim>\<open>net.Conn\<close> with its read and write deadlines, and the wrapper
  \<open>DeadlineConn\<close> of \<^verbatim>\<open>internal/wire/protocol.go\<close>, which renews a deadline before every
  operation. The peer is a list of byte chunks with their arrival times, followed by the error
  every later read returns (end of file, a reset, the local close); times are nanoseconds. Both
  the bare connection and the wrapper satisfy the reader and writer contracts, so the results of
  the protocol functions over them depend only on the byte stream that arrives in time.
\<close>

section \<open>Connections\<close>

record conn =
  c_clock :: int
  c_rdeadline :: "int option"
  c_wdeadline :: "int option"
  c_in :: "(int \<times> byte list) list"
  c_end :: "int \<times> error"
  c_sent :: "byte list"
  c_wbudget :: "nat option"
  c_werr :: error
  c_addr :: string

definition expired :: "int option \<Rightarrow> int \<Rightarrow> bool" where
  "expired dl t = (case dl of None \<Rightarrow> False | Some d \<Rightarrow> d \<le> t)"

definition SetReadDeadline :: "conn \<Rightarrow> int \<Rightarrow> conn" where
  "SetReadDeadline c t = c\<lparr>c_rdeadline := Some t\<rparr>"

definition SetWriteDeadline :: "conn \<Rightarrow> int \<Rightarrow> conn" where
  "SetWriteDeadline c t = c\<lparr>c_wdeadline := Some t\<rparr>"

definition SetDeadline :: "conn \<Rightarrow> int \<Rightarrow> conn" where
  "SetDeadline c t = SetWriteDeadline (SetReadDeadline c t) t"

text \<open>The timeout error as \<^verbatim>\<open>net.OpError\<close> prints it.\<close>

definition timeout_error :: "string \<Rightarrow> string \<Rightarrow> error" where
  "timeout_error oper addr = Wrap (oper @ '' '' @ addr @ '': '') ErrDeadlineExceeded ''''"

text \<open>
  A read waits for the next chunk, but not past the read deadline; a deadline in the past fails
  even when data is waiting.
\<close>

definition conn_Read :: "conn reader" where
  "conn_Read c n =
     (let t = max (c_clock c) (case c_in c of [] \<Rightarrow> fst (c_end c) | (a, _) # _ \<Rightarrow> a) in
      if expired (c_rdeadline c) t
      then ([], Some (timeout_error ''read'' (c_addr c)),
            c\<lparr>c_clock := max (c_clock c) (the (c_rdeadline c))\<rparr>)
      else (case c_in c of
              [] \<Rightarrow> ([], Some (snd (c_end c)), c\<lparr>c_clock := t\<rparr>)
            | (a, ch) # rest \<Rightarrow>
                (take n ch, None,
                 c\<lparr>c_clock := t, c_in := (if length ch \<le> n then rest else (a, drop n ch) # rest)\<rparr>)))"

text \<open>A write fails at once after the write deadline, and otherwise when the peer stops accepting.\<close>

definition conn_Write :: "conn writer" where
  "conn_Write c b =
     (if expired (c_wdeadline c) (c_clock c)
      then (0, Some (timeout_error ''write'' (c_addr c)), c)
      else (case c_wbudget c of
              None \<Rightarrow> (length b, None, c\<lparr>c_sent := c_sent c @ b\<rparr>)
            | Some k \<Rightarrow>
                if length b \<le> k
                then (length b, None, c\<lparr>c_sent := c_sent c @ b, c_wbudget := Some (k - length b)\<rparr>)
                else (k, Some (c_werr c), c\<lparr>c_sent := c_sent c @ take k b, c_wbudget := Some 0\<rparr>)))"

section \<open>DeadlineConn\<close>

definition HandshakeTimeout :: int where "HandshakeTimeout = 10 * second"
definition ReadWriteTimeout :: int where "ReadWriteTimeout = 60 * second"
definition ReceiverIdleTimeout :: int where "ReceiverIdleTimeout = 2 * 60 * second"

definition DeadlineConn_Read :: "int \<Rightarrow> conn reader" where
  "DeadlineConn_Read timeout c n =
     conn_Read (if timeout > 0 then SetReadDeadline c (c_clock c + timeout) else c) n"

definition DeadlineConn_Write :: "int \<Rightarrow> conn writer" where
  "DeadlineConn_Write timeout c b =
     conn_Write (if timeout > 0 then SetWriteDeadline c (c_clock c + timeout) else c) b"

section \<open>The stream a connection delivers\<close>

text \<open>
  \<open>deliver \<tau> dl now arr en addr\<close>: the bytes that reads from time \<open>now\<close> on obtain, with the
  deadline renewed to \<open>\<tau>\<close> after every read when \<open>\<tau> > 0\<close> and fixed at \<open>dl\<close> otherwise.
\<close>

fun deliver :: "int \<Rightarrow> int option \<Rightarrow> int \<Rightarrow> (int \<times> byte list) list \<Rightarrow> int \<times> error \<Rightarrow> string \<Rightarrow> byte list \<times> error" where
  "deliver \<tau> dl now [] en addr =
     (if expired (if \<tau> > 0 then Some (now + \<tau>) else dl) (max now (fst en))
      then ([], timeout_error ''read'' addr) else ([], snd en))"
| "deliver \<tau> dl now ((a, ch) # rest) en addr =
     (if expired (if \<tau> > 0 then Some (now + \<tau>) else dl) (max now a)
      then ([], timeout_error ''read'' addr)
      else (ch @ fst (deliver \<tau> dl (max now a) rest en addr), snd (deliver \<tau> dl (max now a) rest en addr)))"

definition conn_stream :: "int \<Rightarrow> conn \<Rightarrow> byte list \<times> error" where
  "conn_stream \<tau> c = deliver \<tau> (c_rdeadline c) (c_clock c) (c_in c) (c_end c) (c_addr c)"

definition conn_rank :: "conn \<Rightarrow> nat" where
  "conn_rank c = sum_list (map (\<lambda>(a, ch). Suc (length ch)) (c_in c))"

definition conn_frame :: "conn \<Rightarrow> int option \<times> byte list \<times> nat option \<times> error \<times> string \<times> (int \<times> error)" where
  "conn_frame c = (c_wdeadline c, c_sent c, c_wbudget c, c_werr c, c_addr c, c_end c)"

lemma deliver_deadline: "\<tau> > 0 \<Longrightarrow> deliver \<tau> dl now arr en addr = deliver \<tau> dl' now arr en addr"
  by (induction \<tau> dl now arr en addr rule: deliver.induct) auto

lemma timeout_error_not_EOF: "timeout_error oper addr \<noteq> EOF"
  by (simp add: timeout_error_def)

lemma deliver_renewed:
  "deliver \<tau> (if \<tau> > 0 then Some (now + \<tau>) else dl) t arr en addr = deliver \<tau> dl t arr en addr"
  by (auto intro: deliver_deadline)

lemma conn_stream_set: "\<tau> > 0 \<Longrightarrow> conn_stream \<tau> (SetReadDeadline c t) = conn_stream \<tau> c"
  by (simp add: conn_stream_def SetReadDeadline_def deliver_deadline)

text \<open>One read, by cases: data, or the error at the head of the stream.\<close>

lemma conn_Read_data:
  assumes "0 < n" "DeadlineConn_Read \<tau> c n = (d, None, c')"
  shows "length d \<le> n \<and> conn_rank c' < conn_rank c \<and>
    conn_stream \<tau> c = (d @ fst (conn_stream \<tau> c'), snd (conn_stream \<tau> c'))"
proof -
  define dl where "dl = (if \<tau> > 0 then Some (c_clock c + \<tau>) else c_rdeadline c)"
  from assms(2) obtain a ch rest where inp: "c_in c = (a, ch) # rest"
    by (cases "c_in c") (auto simp: DeadlineConn_Read_def conn_Read_def Let_def SetReadDeadline_def split: if_splits)
  define t where "t = max (c_clock c) a"
  from assms(2) inp have ne: "\<not> expired dl t" and d: "d = take n ch"
    and c': "c' = c\<lparr>c_rdeadline := dl, c_clock := t, c_in := (if length ch \<le> n then rest else (a, drop n ch) # rest)\<rparr>"
    by (auto simp: DeadlineConn_Read_def conn_Read_def Let_def SetReadDeadline_def dl_def t_def split: if_splits)
  have again: "\<not> expired (if \<tau> > 0 then Some (t + \<tau>) else dl) t" "max t a = t"
    using ne by (auto simp: expired_def t_def dl_def)
  have "conn_stream \<tau> c' = deliver \<tau> (c_rdeadline c) t (if length ch \<le> n then rest else (a, drop n ch) # rest) (c_end c) (c_addr c)"
    by (simp add: conn_stream_def c' dl_def deliver_renewed)
  moreover have "conn_stream \<tau> c = (ch @ fst (deliver \<tau> (c_rdeadline c) t rest (c_end c) (c_addr c)),
      snd (deliver \<tau> (c_rdeadline c) t rest (c_end c) (c_addr c)))"
    using ne by (simp add: conn_stream_def inp dl_def t_def)
  moreover have "\<not> expired (if \<tau> > 0 then Some (t + \<tau>) else c_rdeadline c) t"
    using again(1) by (simp add: dl_def split: if_splits)
  ultimately show ?thesis
    using assms(1) again(2) by (auto simp: d conn_rank_def inp c' simp flip: append_assoc)
qed

lemma conn_Read_fail:
  assumes "DeadlineConn_Read \<tau> c n = (d, Some e, c')"
  shows "d = [] \<and> conn_stream \<tau> c = ([], e) \<and> (e = EOF \<longrightarrow> conn_stream \<tau> c' = conn_stream \<tau> c)"
proof -
  define dl where "dl = (if \<tau> > 0 then Some (c_clock c + \<tau>) else c_rdeadline c)"
  define t where "t = max (c_clock c) (case c_in c of [] \<Rightarrow> fst (c_end c) | (a, _) # _ \<Rightarrow> a)"
  show ?thesis
  proof (cases "expired dl t")
    case True
    then have "conn_stream \<tau> c = ([], timeout_error ''read'' (c_addr c))"
      by (cases "c_in c") (auto simp: conn_stream_def dl_def t_def)
    with True assms show ?thesis
      by (cases "c_in c") (auto simp: DeadlineConn_Read_def conn_Read_def Let_def SetReadDeadline_def dl_def t_def timeout_error_not_EOF
          split: if_splits)
  next
    case False
    with assms have inp: "c_in c = []"
      by (cases "c_in c") (auto simp: DeadlineConn_Read_def conn_Read_def Let_def SetReadDeadline_def dl_def t_def split: if_splits)
    with False assms have r: "d = []" "e = snd (c_end c)" "c' = c\<lparr>c_rdeadline := dl, c_clock := t\<rparr>"
      by (auto simp: DeadlineConn_Read_def conn_Read_def Let_def SetReadDeadline_def dl_def t_def split: if_splits)
    have "\<not> expired (if \<tau> > 0 then Some (t + \<tau>) else c_rdeadline c) (max t (fst (c_end c)))"
      using False by (auto simp: expired_def t_def dl_def inp split: if_splits)
    with False r show ?thesis
      by (auto simp: conn_stream_def inp dl_def t_def deliver_renewed split: if_splits)
  qed
qed

lemma conn_Read_frame:
  "DeadlineConn_Read \<tau> c n = (d, r, c') \<Longrightarrow> conn_frame c' = conn_frame c \<and> c_clock c \<le> c_clock c'"
  by (auto simp: DeadlineConn_Read_def conn_Read_def conn_frame_def SetReadDeadline_def Let_def
      split: if_splits list.splits)

lemma conn_Read_bare: "conn_Read = DeadlineConn_Read 0"
  by (simp add: DeadlineConn_Read_def fun_eq_iff)

interpretation bare: go_reader conn_Read "conn_stream 0" conn_rank conn_frame
  unfolding conn_Read_bare
  by unfold_locales
     (erule (1) conn_Read_data, erule conn_Read_fail, erule conn_Read_frame [THEN conjunct1])

interpretation timed: go_reader "DeadlineConn_Read \<tau>" "conn_stream \<tau>" conn_rank conn_frame for \<tau>
  by unfold_locales
     (erule (1) conn_Read_data, erule conn_Read_fail, erule conn_Read_frame [THEN conjunct1])

text \<open>The bytes a connection still holds, whenever they arrive.\<close>

definition pending :: "conn \<Rightarrow> byte list" where
  "pending c = concat (map snd (c_in c))"

lemma conn_Read_pending: "DeadlineConn_Read \<tau> c n = (d, r, c') \<Longrightarrow> pending c = d @ pending c'"
  by (auto simp: DeadlineConn_Read_def conn_Read_def pending_def SetReadDeadline_def Let_def
      simp flip: append_assoc split: if_splits list.splits)

interpretation bare_fed: go_fed conn_Read "conn_stream 0" conn_rank conn_frame pending
  by unfold_locales (simp add: conn_Read_bare conn_Read_pending)

lemma pending_SetReadDeadline [simp]: "pending (SetReadDeadline c t) = pending c"
  by (simp add: pending_def SetReadDeadline_def)

section \<open>Writing\<close>

definition conn_room :: "conn \<Rightarrow> nat \<Rightarrow> bool" where
  "conn_room c k \<longleftrightarrow> \<not> expired (c_wdeadline c) (c_clock c) \<and>
     (case c_wbudget c of None \<Rightarrow> True | Some j \<Rightarrow> k \<le> j)"

definition timed_room :: "int \<Rightarrow> conn \<Rightarrow> nat \<Rightarrow> bool" where
  "timed_room \<tau> c k \<longleftrightarrow> conn_room (if \<tau> > 0 then SetWriteDeadline c (c_clock c + \<tau>) else c) k"

interpretation bare_w: go_writer conn_Write c_sent conn_room
  by unfold_locales
     (auto simp: conn_Write_def conn_room_def split: if_splits option.splits)

interpretation timed_w: go_writer "DeadlineConn_Write \<tau>" c_sent "timed_room \<tau>" for \<tau>
  by unfold_locales
     (auto simp: DeadlineConn_Write_def conn_Write_def timed_room_def conn_room_def SetWriteDeadline_def expired_def
       split: if_splits option.splits)

end
