(* ===== verification/Os_Fs.thy ===== *)
theory Os_Fs
  imports Go_IO "HOL-Library.AList" "HOL-Library.Char_ord" "HOL-Library.List_Lexorder"
begin

text \<open>
  The part of a POSIX file system the program relies on, with the system calls of Go's
  \<^verbatim>\<open>os\<close> package as functions on an explicit state. A path is the list of its components, so
  \<^verbatim>\<open>filepath.Join(dir, name)\<close> is \<open>dir @ [name]\<close> for a single plain component \<open>name\<close>.
  Directory entries and file contents exist twice: as the running system sees them and as they
  are on stable storage. \<^verbatim>\<open>File.Sync\<close> makes a file's content stable, \<^verbatim>\<open>Sync\<close> on an
  open directory makes its entries stable, and everything else may be lost or may have reached
  the disk when the machine stops. Every call consumes one element of a fault script and fails
  with the error found there, so that all error paths can be exercised; every change is recorded
  in a history, so that statements about a crash between two calls can be made.
\<close>

section \<open>State\<close>

type_synonym path = "string list"

datatype entry = Dir | Ino nat

record inode =
  i_data :: "byte list"
  i_synced :: "byte list"
  i_mtime :: int

record fsview =
  v_ents :: "(path \<times> entry) list"
  v_disk :: "(path \<times> entry) list"
  v_inodes :: "nat \<Rightarrow> inode"

record os =
  o_fs :: fsview
  o_hist :: "fsview list"
  o_next :: nat
  o_faults :: "error option list"
  o_space :: "nat option"
  o_clock :: int
  o_entropy :: "nat \<Rightarrow> byte list"
  o_draws :: nat

definition ent :: "os \<Rightarrow> path \<Rightarrow> entry option" where
  "ent s p = map_of (v_ents (o_fs s)) p"

definition inode_of :: "os \<Rightarrow> nat \<Rightarrow> inode" where
  "inode_of s i = v_inodes (o_fs s) i"

text \<open>The content of the file at a path, as the running system sees it.\<close>

definition content :: "os \<Rightarrow> path \<Rightarrow> byte list option" where
  "content s p = (case ent s p of Some (Ino i) \<Rightarrow> Some (i_data (inode_of s i)) | _ \<Rightarrow> None)"

definition is_dir :: "os \<Rightarrow> path \<Rightarrow> bool" where
  "is_dir s p \<longleftrightarrow> p = [] \<or> ent s p = Some Dir"

definition child :: "path \<Rightarrow> path \<Rightarrow> bool" where
  "child d p \<longleftrightarrow> p \<noteq> [] \<and> butlast p = d"

text \<open>The next element of the fault script, and a recorded change of the file system.\<close>

definition fault :: "os \<Rightarrow> error option \<times> os" where
  "fault s = (case o_faults s of [] \<Rightarrow> (None, s) | f # fs \<Rightarrow> (f, s\<lparr>o_faults := fs\<rparr>))"

definition put_fs :: "os \<Rightarrow> fsview \<Rightarrow> os" where
  "put_fs s v = s\<lparr>o_fs := v, o_hist := o_hist s @ [v]\<rparr>"

section \<open>Error texts\<close>

fun path_string :: "path \<Rightarrow> string" where
  "path_string [] = ''''"
| "path_string [c] = c"
| "path_string (c # cs) = c @ ''/'' @ path_string cs"

definition PathError :: "string \<Rightarrow> path \<Rightarrow> error \<Rightarrow> error" where
  "PathError oper p e = Wrap (oper @ '' '' @ path_string p @ '': '') e ''''"

definition LinkError :: "string \<Rightarrow> path \<Rightarrow> path \<Rightarrow> error \<Rightarrow> error" where
  "LinkError oper p q e = Wrap (oper @ '' '' @ path_string p @ '' '' @ path_string q @ '': '') e ''''"

definition ENOENT :: error where "ENOENT = New ''no such file or directory''"
definition EEXIST :: error where "EEXIST = New ''file exists''"
definition ENOTDIR :: error where "ENOTDIR = New ''not a directory''"
definition EISDIR :: error where "EISDIR = New ''is a directory''"
definition ENOTEMPTY :: error where "ENOTEMPTY = New ''directory not empty''"
definition ENOSPC :: error where "ENOSPC = New ''no space left on device''"

section \<open>System calls\<close>

text \<open>\<^verbatim>\<open>os.MkdirAll\<close>: every missing ancestor is created; a file in the way is an error.\<close>

definition ancestors :: "path \<Rightarrow> path list" where
  "ancestors p = map (\<lambda>k. take (Suc k) p) [0..<length p]"

definition MkdirAll :: "os \<Rightarrow> path \<Rightarrow> error option \<times> os" where
  "MkdirAll s p =
     (case fault s of
        (Some e, s1) \<Rightarrow> (Some (PathError ''mkdir'' p e), s1)
      | (None, s1) \<Rightarrow>
          if list_ex (\<lambda>q. ent s1 q \<noteq> None \<and> ent s1 q \<noteq> Some Dir) (ancestors p)
          then (Some (PathError ''mkdir'' p ENOTDIR), s1)
          else
            (let v = o_fs s1;
                 new = map (\<lambda>q. (q, Dir)) (filter (\<lambda>q. ent s1 q = None) (ancestors p))
             in (None, if new = [] then s1 else put_fs s1 (v\<lparr>v_ents := v_ents v @ new\<rparr>))))"

text \<open>\<^verbatim>\<open>os.OpenFile\<close> with \<^verbatim>\<open>O_CREATE|O_EXCL|O_WRONLY\<close>; the handle is the inode number.\<close>

definition OpenExcl :: "os \<Rightarrow> path \<Rightarrow> (error + nat) \<times> os" where
  "OpenExcl s p =
     (case fault s of
        (Some e, s1) \<Rightarrow> (Inl (PathError ''open'' p e), s1)
      | (None, s1) \<Rightarrow>
          if ent s1 p \<noteq> None then (Inl (PathError ''open'' p EEXIST), s1)
          else if \<not> is_dir s1 (butlast p) then (Inl (PathError ''open'' p ENOENT), s1)
          else
            (let i = o_next s1; v = o_fs s1;
                 nd = \<lparr>i_data = [], i_synced = [], i_mtime = o_clock s1\<rparr>
             in (Inr i, put_fs (s1\<lparr>o_next := Suc i\<rparr>)
                   (v\<lparr>v_ents := AList.update p (Ino i) (v_ents v),
                      v_inodes := (v_inodes v)(i := nd)\<rparr>))))"

text \<open>\<^verbatim>\<open>File.Write\<close>: appends at the write position, as far as there is space.\<close>

definition append_data :: "os \<Rightarrow> nat \<Rightarrow> byte list \<Rightarrow> os" where
  "append_data s i b =
     (let v = o_fs s; nd = v_inodes v i
      in put_fs s (v\<lparr>v_inodes := (v_inodes v)(i := nd\<lparr>i_data := i_data nd @ b, i_mtime := o_clock s\<rparr>)\<rparr>))"

definition File_Write :: "nat \<Rightarrow> os writer" where
  "File_Write i s b =
     (case fault s of
        (Some e, s1) \<Rightarrow> (0, Some (Wrap ''write: '' e ''''), s1)
      | (None, s1) \<Rightarrow>
          (case o_space s1 of
             None \<Rightarrow> (length b, None, append_data s1 i b)
           | Some k \<Rightarrow>
               if length b \<le> k then (length b, None, append_data (s1\<lparr>o_space := Some (k - length b)\<rparr>) i b)
               else (k, Some (Wrap ''write: '' ENOSPC ''''), append_data (s1\<lparr>o_space := Some 0\<rparr>) i (take k b))))"

definition File_Sync :: "os \<Rightarrow> nat \<Rightarrow> error option \<times> os" where
  "File_Sync s i =
     (case fault s of
        (Some e, s1) \<Rightarrow> (Some (Wrap ''sync: '' e ''''), s1)
      | (None, s1) \<Rightarrow>
          (let v = o_fs s1; nd = v_inodes v i
           in (None, put_fs s1 (v\<lparr>v_inodes := (v_inodes v)(i := nd\<lparr>i_synced := i_data nd\<rparr>)\<rparr>))))"

definition File_Close :: "os \<Rightarrow> error option \<times> os" where
  "File_Close s = (case fault s of (Some e, s1) \<Rightarrow> (Some (Wrap ''close: '' e ''''), s1) | (None, s1) \<Rightarrow> (None, s1))"

text \<open>\<^verbatim>\<open>os.Rename\<close> of a regular file replaces a regular file at the target in one step.\<close>

definition Rename :: "os \<Rightarrow> path \<Rightarrow> path \<Rightarrow> error option \<times> os" where
  "Rename s p q =
     (case fault s of
        (Some e, s1) \<Rightarrow> (Some (LinkError ''rename'' p q e), s1)
      | (None, s1) \<Rightarrow>
          (case ent s1 p of
             None \<Rightarrow> (Some (LinkError ''rename'' p q ENOENT), s1)
           | Some Dir \<Rightarrow> (Some (LinkError ''rename'' p q EISDIR), s1)
           | Some (Ino i) \<Rightarrow>
               if is_dir s1 q then (Some (LinkError ''rename'' p q EEXIST), s1)
               else if \<not> is_dir s1 (butlast q) then (Some (LinkError ''rename'' p q ENOENT), s1)
               else
                 (let v = o_fs s1
                  in (None, put_fs s1 (v\<lparr>v_ents := AList.update q (Ino i) (AList.delete p (v_ents v))\<rparr>)))))"

definition Remove :: "os \<Rightarrow> path \<Rightarrow> error option \<times> os" where
  "Remove s p =
     (case fault s of
        (Some e, s1) \<Rightarrow> (Some (PathError ''remove'' p e), s1)
      | (None, s1) \<Rightarrow>
          if p = [] \<or> ent s1 p = None then (Some (PathError ''remove'' p ENOENT), s1)
          else if list_ex (\<lambda>(q, _). child p q) (v_ents (o_fs s1)) then (Some (PathError ''remove'' p ENOTEMPTY), s1)
          else (let v = o_fs s1 in (None, put_fs s1 (v\<lparr>v_ents := AList.delete p (v_ents v)\<rparr>))))"

text \<open>\<^verbatim>\<open>os.Open\<close> for reading gives the entry; a directory can be synced, a file read.\<close>

definition Open :: "os \<Rightarrow> path \<Rightarrow> (error + entry) \<times> os" where
  "Open s p =
     (case fault s of
        (Some e, s1) \<Rightarrow> (Inl (PathError ''open'' p e), s1)
      | (None, s1) \<Rightarrow>
          if is_dir s1 p then (Inr Dir, s1)
          else (case ent s1 p of None \<Rightarrow> (Inl (PathError ''open'' p ENOENT), s1) | Some en \<Rightarrow> (Inr en, s1)))"

definition sync_entries :: "path \<Rightarrow> fsview \<Rightarrow> fsview" where
  "sync_entries d v =
     v\<lparr>v_disk := filter (\<lambda>(p, _). \<not> child d p) (v_disk v) @ filter (\<lambda>(p, _). child d p) (v_ents v)\<rparr>"

definition Dir_Sync :: "os \<Rightarrow> path \<Rightarrow> error option \<times> os" where
  "Dir_Sync s d =
     (case fault s of
        (Some e, s1) \<Rightarrow> (Some (Wrap ''sync: '' e ''''), s1)
      | (None, s1) \<Rightarrow> (None, put_fs s1 (sync_entries d (o_fs s1))))"

text \<open>\<^verbatim>\<open>os.ReadDir\<close>: the entries of a directory, sorted by name.\<close>

definition names_in :: "os \<Rightarrow> path \<Rightarrow> string list" where
  "names_in s d = sort (remdups (map (\<lambda>(p, _). last p) (filter (\<lambda>(p, _). child d p) (v_ents (o_fs s)))))"

definition ReadDir :: "os \<Rightarrow> path \<Rightarrow> (error + (string \<times> entry) list) \<times> os" where
  "ReadDir s d =
     (case fault s of
        (Some e, s1) \<Rightarrow> (Inl (PathError ''open'' d e), s1)
      | (None, s1) \<Rightarrow>
          if is_dir s1 d then (Inr (map (\<lambda>n. (n, the (ent s1 (d @ [n])))) (names_in s1 d)), s1)
          else (Inl (PathError ''open'' d ENOENT), s1))"

text \<open>Size and modification time, as \<^verbatim>\<open>DirEntry.Info\<close> and \<^verbatim>\<open>File.Stat\<close> report them.\<close>

definition Lstat :: "os \<Rightarrow> path \<Rightarrow> (error + int \<times> int) \<times> os" where
  "Lstat s p =
     (case fault s of
        (Some e, s1) \<Rightarrow> (Inl (PathError ''lstat'' p e), s1)
      | (None, s1) \<Rightarrow>
          (case ent s1 p of
             None \<Rightarrow> (Inl (PathError ''lstat'' p ENOENT), s1)
           | Some Dir \<Rightarrow> (Inr (4096, o_clock s1), s1)
           | Some (Ino i) \<Rightarrow> (Inr (int (length (i_data (inode_of s1 i))), i_mtime (inode_of s1 i)), s1)))"

text \<open>\<^verbatim>\<open>rand.Read\<close> of sixteen bytes.\<close>

definition rand_Read16 :: "os \<Rightarrow> (error + byte list) \<times> os" where
  "rand_Read16 s =
     (case fault s of
        (Some e, s1) \<Rightarrow> (Inl e, s1)
      | (None, s1) \<Rightarrow> (Inr (take 16 (o_entropy s1 (o_draws s1) @ replicate 16 0)), s1\<lparr>o_draws := Suc (o_draws s1)\<rparr>))"

section \<open>What may be found after a crash\<close>

text \<open>
  \<open>survives v p c\<close>: when the machine stops in state \<open>v\<close>, the next boot may find a file with
  content \<open>c\<close> at \<open>p\<close>. The entry is the stable one or the current one, and the content of a
  file that was not synced since its last write is unknown.
\<close>

definition survives :: "fsview \<Rightarrow> path \<Rightarrow> byte list \<Rightarrow> bool" where
  "survives v p c \<longleftrightarrow>
     (\<exists>i. (map_of (v_disk v) p = Some (Ino i) \<or> map_of (v_ents v) p = Some (Ino i)) \<and>
          (i_data (v_inodes v i) = i_synced (v_inodes v i) \<longrightarrow> c = i_data (v_inodes v i)))"

section \<open>Facts\<close>

named_theorems os_simps \<open>how a system call changes what can be observed\<close>

lemma fault_same [os_simps]:
  "fault s = (f, s1) \<Longrightarrow> o_fs s1 = o_fs s \<and> o_hist s1 = o_hist s \<and> o_next s1 = o_next s \<and>
     o_space s1 = o_space s \<and> o_clock s1 = o_clock s \<and> o_entropy s1 = o_entropy s \<and> o_draws s1 = o_draws s"
  by (auto simp: fault_def split: list.splits)

lemma fault_quiet [os_simps]: "o_faults s = [] \<Longrightarrow> fault s = (None, s)"
  by (simp add: fault_def)

lemma fault_no_faults: "fault s = (f, s1) \<Longrightarrow> o_faults s = [] \<Longrightarrow> f = None \<and> s1 = s"
  by (simp add: fault_def)

lemma put_fs_sel [simp]:
  "o_fs (put_fs s v) = v" "o_hist (put_fs s v) = o_hist s @ [v]" "o_next (put_fs s v) = o_next s"
  "o_faults (put_fs s v) = o_faults s" "o_space (put_fs s v) = o_space s" "o_clock (put_fs s v) = o_clock s"
  by (simp_all add: put_fs_def)

text \<open>Entries and inodes seen through each call.\<close>

lemma ent_update [simp]: "map_of (AList.update p e xs) q = (if q = p then Some e else map_of xs q)"
  by (simp add: update_conv')

lemma ent_delete [simp]: "map_of (AList.delete p xs) q = (if q = p then None else map_of xs q)"
  by (simp add: delete_conv')

text \<open>The staged-file handle is a writer: it accepts whatever fits and no fault forbids.\<close>

definition file_data :: "nat \<Rightarrow> os \<Rightarrow> byte list" where
  "file_data i s = i_data (inode_of s i)"

definition file_room :: "os \<Rightarrow> nat \<Rightarrow> bool" where
  "file_room s k \<longleftrightarrow> o_faults s = [] \<and> (case o_space s of None \<Rightarrow> True | Some j \<Rightarrow> k \<le> j)"

lemma append_data_sel [simp]:
  "o_fs (append_data s i b) = (o_fs s)\<lparr>v_inodes := (v_inodes (o_fs s))
     (i := (v_inodes (o_fs s) i)\<lparr>i_data := i_data (v_inodes (o_fs s) i) @ b, i_mtime := o_clock s\<rparr>)\<rparr>"
  "o_faults (append_data s i b) = o_faults s" "o_space (append_data s i b) = o_space s"
  "o_next (append_data s i b) = o_next s"
  by (simp_all add: append_data_def Let_def)

interpretation file_w: go_writer "File_Write i" "file_data i" file_room for i
proof unfold_locales
  fix s b n s'
  assume "File_Write i s b = (n, None, s')"
  then show "n = length b \<and> file_data i s' = file_data i s @ b"
    by (auto simp: File_Write_def file_data_def inode_of_def dest!: fault_same
        split: prod.splits option.splits if_splits)
next
  fix s b n e s'
  assume "File_Write i s b = (n, Some e, s')"
  then show "n \<le> length b \<and> file_data i s' = file_data i s @ take n b"
    by (auto simp: File_Write_def file_data_def inode_of_def dest!: fault_same
        split: prod.splits option.splits if_splits)
next
  fix s k and b :: "byte list"
  assume "file_room s k" "length b \<le> k"
  then show "\<exists>s'. File_Write i s b = (length b, None, s') \<and> file_room s' (k - length b)"
    by (auto simp: File_Write_def file_room_def fault_quiet split: option.splits)
qed

end
