(* ===== verification/Os_Laws.thy ===== *)
theory Os_Laws
  imports Os_Fs
begin

text \<open>
  Laws of the file system calls, for the components that use them: a well-formedness invariant
  that every call keeps, and \<open>trail\<close>, the statement that a sequence of calls has only passed
  through views of the file system with a given property, which is what a crash between two
  calls can expose.
\<close>

section \<open>Well-formed file systems\<close>

text \<open>Every entry lies in a directory, and inode numbers in use are below the next one.\<close>

definition fs_wf :: "os \<Rightarrow> bool" where
  "fs_wf s \<longleftrightarrow> list_all (\<lambda>(q, e). q \<noteq> [] \<and> is_dir s (butlast q)) (v_ents (o_fs s)) \<and>
     list_all (\<lambda>(q, e). case e of Dir \<Rightarrow> True | Ino i \<Rightarrow> i < o_next s) (v_ents (o_fs s) @ v_disk (o_fs s))"

lemma fs_wf_iff:
  "fs_wf s \<longleftrightarrow> (\<forall>q e. (q, e) \<in> set (v_ents (o_fs s)) \<longrightarrow> q \<noteq> [] \<and> is_dir s (butlast q)) \<and>
     (\<forall>q i. (q, Ino i) \<in> set (v_ents (o_fs s)) \<longrightarrow> i < o_next s) \<and>
     (\<forall>q i. (q, Ino i) \<in> set (v_disk (o_fs s)) \<longrightarrow> i < o_next s)"
  by (fastforce simp: fs_wf_def list_all_iff split: entry.splits)

text \<open>The inode at a path, in the running view and on the disk.\<close>

definition file_at :: "(path \<times> entry) list \<Rightarrow> path \<Rightarrow> nat option" where
  "file_at es q = (case map_of es q of Some (Ino i) \<Rightarrow> Some i | _ \<Rightarrow> None)"

lemma file_at_content: "content s q = map_option (\<lambda>i. i_data (inode_of s i)) (file_at (v_ents (o_fs s)) q)"
  by (simp add: content_def file_at_def ent_def split: option.splits entry.splits)

lemma content_cong: "o_fs s = o_fs s' \<Longrightarrow> content s = content s'"
  by (simp add: fun_eq_iff file_at_content inode_of_def)

lemma file_at_less: "fs_wf s \<Longrightarrow> file_at (v_ents (o_fs s)) q = Some i \<Longrightarrow> i < o_next s"
  by (auto simp: fs_wf_iff file_at_def dest!: map_of_SomeD split: option.splits entry.splits)

lemma file_at_disk_less: "fs_wf s \<Longrightarrow> file_at (v_disk (o_fs s)) q = Some i \<Longrightarrow> i < o_next s"
  by (auto simp: fs_wf_iff file_at_def dest!: map_of_SomeD split: option.splits entry.splits)

lemma survives_file_at:
  "survives v q c \<longleftrightarrow> (\<exists>i. (file_at (v_disk v) q = Some i \<or> file_at (v_ents v) q = Some i) \<and>
     (i_data (v_inodes v i) = i_synced (v_inodes v i) \<longrightarrow> c = i_data (v_inodes v i)))"
  by (auto simp: survives_def file_at_def split: option.splits entry.splits)

lemma file_at_update [simp]:
  "file_at (AList.update p (Ino i) es) q = (if q = p then Some i else file_at es q)"
  by (simp add: file_at_def)

lemma file_at_delete [simp]: "file_at (AList.delete p es) q = (if q = p then None else file_at es q)"
  by (simp add: file_at_def)

lemma map_of_dirs: "map_of (map (\<lambda>q. (q, Dir)) ps) q = (if q \<in> set ps then Some Dir else None)"
  by (induction ps) auto

lemma file_at_mkdir [simp]: "file_at (es @ map (\<lambda>q. (q, Dir)) ps) q = file_at es q"
  by (simp add: file_at_def map_add_def map_of_dirs split: option.splits)

section \<open>What a call does\<close>

text \<open>
  A call either leaves the file system as it is or moves it to one new view; the rules below say
  which, with the result, for each call. Faults only occur while the fault script has elements.
\<close>

definition same_fs :: "os \<Rightarrow> os \<Rightarrow> bool" where
  "same_fs s s' \<longleftrightarrow> o_fs s' = o_fs s \<and> o_hist s' = o_hist s \<and> o_next s' = o_next s \<and>
     (o_faults s = [] \<longrightarrow> o_faults s' = [])"

definition fs_step :: "os \<Rightarrow> fsview \<Rightarrow> nat \<Rightarrow> os \<Rightarrow> bool" where
  "fs_step s v n s' \<longleftrightarrow> o_fs s' = v \<and> o_hist s' = o_hist s @ [v] \<and> o_next s' = n \<and>
     (o_faults s = [] \<longrightarrow> o_faults s' = [])"

lemma same_fs_refl [simp]: "same_fs s s"
  by (simp add: same_fs_def)

lemma same_fs_ent: "same_fs s s' \<Longrightarrow> ent s' = ent s \<and> is_dir s' = is_dir s \<and> inode_of s' = inode_of s"
  by (auto simp: same_fs_def ent_def is_dir_def inode_of_def fun_eq_iff)

lemma fault_cases:
  obtains e s1 where "fault s = (Some e, s1)" "same_fs s s1" "o_faults s \<noteq> []"
  | s1 where "fault s = (None, s1)" "same_fs s s1" "o_faults s = [] \<Longrightarrow> s1 = s"
  by (cases "o_faults s"; cases "fst (fault s)") (auto simp: fault_def same_fs_def)

lemma MkdirAll_cases:
  assumes "MkdirAll s p = (r, s')"
  obtains (failed) e where "r = Some e" "same_fs s s'"
      "o_faults s \<noteq> [] \<or> list_ex (\<lambda>q. ent s q \<noteq> None \<and> ent s q \<noteq> Some Dir) (ancestors p)"
  | (exists) "r = None" "same_fs s s'" "list_all (\<lambda>q. ent s q = Some Dir) (ancestors p)"
  | (made) "r = None" "list_all (\<lambda>q. ent s q = None \<or> ent s q = Some Dir) (ancestors p)"
      "fs_step s ((o_fs s)\<lparr>v_ents := v_ents (o_fs s) @
          map (\<lambda>q. (q, Dir)) (filter (\<lambda>q. ent s q = None) (ancestors p))\<rparr>) (o_next s) s'"
proof (cases rule: fault_cases [of s])
  case 1
  with assms failed show thesis by (auto simp: MkdirAll_def)
next
  case (2 s1)
  let ?bad = "list_ex (\<lambda>q. ent s q \<noteq> None \<and> ent s q \<noteq> Some Dir) (ancestors p)"
  note eq = same_fs_ent [OF 2(2)] 2(2) [unfolded same_fs_def]
  show thesis
  proof (cases ?bad)
    case True
    with assms 2 eq failed show thesis by (auto simp: MkdirAll_def)
  next
    case good: False
    then have all: "list_all (\<lambda>q. ent s q = None \<or> ent s q = Some Dir) (ancestors p)"
      by (auto simp: list_ex_iff list_all_iff)
    show thesis
    proof (cases "filter (\<lambda>q. ent s q = None) (ancestors p) = []")
      case True
      with all have "list_all (\<lambda>q. ent s q = Some Dir) (ancestors p)"
        by (fastforce simp: list_all_iff filter_empty_conv)
      with assms 2 eq good True show thesis by (intro exists) (auto simp: MkdirAll_def Let_def)
    next
      case False
      with assms 2 eq good all show thesis
        by (intro made) (auto simp: MkdirAll_def Let_def fs_step_def)
    qed
  qed
qed

lemma OpenExcl_cases:
  assumes "OpenExcl s p = (r, s')"
  obtains (failed) e where "r = Inl e" "same_fs s s'"
      "o_faults s \<noteq> [] \<or> ent s p \<noteq> None \<or> \<not> is_dir s (butlast p)"
  | (opened) "r = Inr (o_next s)" "ent s p = None" "is_dir s (butlast p)"
      "fs_step s ((o_fs s)\<lparr>v_ents := AList.update p (Ino (o_next s)) (v_ents (o_fs s)),
         v_inodes := (v_inodes (o_fs s))(o_next s := \<lparr>i_data = [], i_synced = [], i_mtime = o_clock s\<rparr>)\<rparr>)
         (Suc (o_next s)) s'"
proof (cases rule: fault_cases [of s])
  case 1
  with assms failed show thesis by (auto simp: OpenExcl_def)
next
  case (2 s1)
  note eq = same_fs_ent [OF 2(2)] 2(2) [unfolded same_fs_def] fault_same [OF 2(1)]
  show thesis
  proof (cases "ent s p \<noteq> None \<or> \<not> is_dir s (butlast p)")
    case True
    with assms 2 eq show thesis
      by (intro failed [of "projl r"]) (auto simp: OpenExcl_def split: if_splits)
  next
    case False
    with assms 2 eq show thesis by (intro opened) (auto simp: OpenExcl_def fs_step_def Let_def)
  qed
qed

text \<open>A write that changes the file appends a prefix of the data.\<close>

lemma File_Write_cases:
  assumes "File_Write i s b = (n, r, s')"
  obtains (failed) "same_fs s s'" "r \<noteq> None"
  | (wrote) k where "fs_step s ((o_fs s)\<lparr>v_inodes := (v_inodes (o_fs s))(i := (v_inodes (o_fs s) i)
        \<lparr>i_data := i_data (v_inodes (o_fs s) i) @ take k b, i_mtime := o_clock s\<rparr>)\<rparr>) (o_next s) s'"
proof (cases rule: fault_cases [of s])
  case 1
  with assms failed show thesis by (auto simp: File_Write_def)
next
  case (2 s1)
  note eq = 2(2) [unfolded same_fs_def] fault_same [OF 2(1)]
  obtain k x where "s' = append_data x i (take k b)" "o_fs x = o_fs s" "o_hist x = o_hist s"
    "o_next x = o_next s" "o_clock x = o_clock s" "o_faults s = [] \<longrightarrow> o_faults x = []"
  proof (cases "o_space s1")
    case None
    with assms 2 eq show thesis by (intro that [of s1 "length b"]) (auto simp: File_Write_def)
  next
    case (Some j)
    with assms 2(1) have "s' = append_data (s1\<lparr>o_space := Some (j - min j (length b))\<rparr>) i (take j b)"
      by (auto simp: File_Write_def split: if_splits)
    then show thesis by (rule that) (simp_all add: eq)
  qed
  then show thesis
    by (intro wrote [of k]) (auto simp: fs_step_def append_data_def Let_def)
qed

lemma File_Sync_cases:
  assumes "File_Sync s i = (r, s')"
  obtains (failed) e where "r = Some e" "same_fs s s'" "o_faults s \<noteq> []"
  | (synced) "r = None"
      "fs_step s ((o_fs s)\<lparr>v_inodes := (v_inodes (o_fs s))
        (i := (v_inodes (o_fs s) i)\<lparr>i_synced := i_data (v_inodes (o_fs s) i)\<rparr>)\<rparr>) (o_next s) s'"
  using assms by (cases rule: fault_cases [of s])
    (auto simp: File_Sync_def Let_def fs_step_def same_fs_def)

lemma File_Close_cases:
  assumes "File_Close s = (r, s')"
  obtains e where "r = Some e" "same_fs s s'" "o_faults s \<noteq> []" | "r = None" "same_fs s s'"
  using assms by (cases rule: fault_cases [of s]) (auto simp: File_Close_def)

lemma Rename_cases:
  assumes "Rename s p q = (r, s')"
  obtains (failed) e where "r = Some e" "same_fs s s'"
      "o_faults s \<noteq> [] \<or> is_dir s q \<or> \<not> is_dir s (butlast q) \<or> (\<forall>i. ent s p \<noteq> Some (Ino i))"
  | (renamed) i where "r = None" "ent s p = Some (Ino i)" "\<not> is_dir s q" "is_dir s (butlast q)"
      "fs_step s ((o_fs s)\<lparr>v_ents := AList.update q (Ino i) (AList.delete p (v_ents (o_fs s)))\<rparr>) (o_next s) s'"
proof (cases rule: fault_cases [of s])
  case 1
  with assms failed show thesis by (auto simp: Rename_def)
next
  case (2 s1)
  note eq = same_fs_ent [OF 2(2)] 2(2) [unfolded same_fs_def]
  note call = assms [unfolded Rename_def 2(1) prod.case option.case]
  consider (absent) "ent s p = None" | (dir) "ent s p = Some Dir" | (plain) i where "ent s p = Some (Ino i)"
    by (metis entry.exhaust not_Some_eq)
  then show thesis
  proof cases
    case plain
    show thesis
    proof (cases "is_dir s q \<or> \<not> is_dir s (butlast q)")
      case True
      with call plain 2 eq show thesis by (intro failed [of "the r"]) (auto split: if_splits)
    next
      case False
      with call plain eq have "r = None"
        "s' = put_fs s1 ((o_fs s)\<lparr>v_ents := AList.update q (Ino i) (AList.delete p (v_ents (o_fs s)))\<rparr>)"
        by (simp_all add: Let_def)
      with False plain eq show thesis by (intro renamed) (simp_all add: fs_step_def)
    qed
  qed (use call 2 eq in \<open>auto intro: failed\<close>)
qed

lemma Remove_cases:
  assumes "Remove s p = (r, s')"
  obtains (failed) e where "r = Some e" "same_fs s s'"
      "o_faults s \<noteq> [] \<or> p = [] \<or> ent s p = None \<or> list_ex (\<lambda>(q, _). child p q) (v_ents (o_fs s))"
  | (removed) "r = None" "p \<noteq> []" "\<not> list_ex (\<lambda>(q, _). child p q) (v_ents (o_fs s))"
      "fs_step s ((o_fs s)\<lparr>v_ents := AList.delete p (v_ents (o_fs s))\<rparr>) (o_next s) s'"
proof (cases rule: fault_cases [of s])
  case 1
  with assms failed show thesis by (auto simp: Remove_def)
next
  case (2 s1)
  note eq = same_fs_ent [OF 2(2)] 2(2) [unfolded same_fs_def]
  show thesis
  proof (cases "p = [] \<or> ent s p = None \<or> list_ex (\<lambda>(q, _). child p q) (v_ents (o_fs s))")
    case True
    with assms 2 eq show thesis by (intro failed [of "the r"]) (auto simp: Remove_def split: if_splits)
  next
    case False
    with assms 2 eq show thesis by (intro removed) (auto simp: Remove_def fs_step_def Let_def)
  qed
qed

lemma Open_cases:
  assumes "Open s p = (r, s')"
  obtains (failed) e where "r = Inl e" "same_fs s s'" "o_faults s \<noteq> [] \<or> \<not> is_dir s p \<and> ent s p = None"
  | (opened) en where "r = Inr en" "same_fs s s'"
proof (cases rule: fault_cases [of s])
  case 1
  with assms failed show thesis by (auto simp: Open_def)
next
  case (2 s1)
  then show thesis
    using assms failed opened same_fs_ent [OF 2(2)]
    by (cases "is_dir s p"; cases "ent s p") (auto simp: Open_def)
qed

lemma Dir_Sync_cases:
  assumes "Dir_Sync s d = (r, s')"
  obtains (failed) e where "r = Some e" "same_fs s s'" "o_faults s \<noteq> []"
  | (synced) "r = None" "fs_step s (sync_entries d (o_fs s)) (o_next s) s'"
  using assms by (cases rule: fault_cases [of s]) (auto simp: Dir_Sync_def fs_step_def same_fs_def)

lemma rand_Read16_cases:
  assumes "rand_Read16 s = (r, s')"
  obtains e where "r = Inl e" "same_fs s s'" "o_faults s \<noteq> []"
  | "r = Inr (take 16 (o_entropy s (o_draws s) @ replicate 16 0))" "same_fs s s'"
proof (cases rule: fault_cases [of s])
  case 1
  with assms that show thesis by (auto simp: rand_Read16_def)
next
  case (2 s1)
  with assms that fault_same [OF 2(1)] show thesis by (auto simp: rand_Read16_def same_fs_def)
qed

section \<open>Every call keeps well-formedness\<close>

lemma set_update: "set (AList.update p e es) \<subseteq> insert (p, e) (set es)"
  by (induction es) auto

lemma set_delete: "set (AList.delete p es) = {(q, e). (q, e) \<in> set es \<and> q \<noteq> p}"
  by (auto simp: AList.delete_eq)

lemma fs_wf_same: "fs_wf s \<Longrightarrow> same_fs s s' \<Longrightarrow> fs_wf s'"
  unfolding fs_wf_iff same_fs_def is_dir_def ent_def by simp

lemma fs_wf_step:
  assumes "fs_step s v n s'" "fs_wf s" "o_next s \<le> n"
    and "\<And>q e. (q, e) \<in> set (v_ents v) \<Longrightarrow> (q, e) \<notin> set (v_ents (o_fs s)) \<Longrightarrow>
      q \<noteq> [] \<and> is_dir s (butlast q) \<and> (\<forall>i. e = Ino i \<longrightarrow> i < n)"
    and "\<And>q e. (q, e) \<in> set (v_ents v) \<Longrightarrow> is_dir s (butlast q) \<Longrightarrow> is_dir s' (butlast q)"
    and "set (v_disk v) \<subseteq> set (v_disk (o_fs s)) \<union> set (v_ents v)"
  shows "fs_wf s'"
proof -
  have "q \<noteq> [] \<and> is_dir s (butlast q)" if "(q, e) \<in> set (v_ents v)" for q e
    using assms(2,4) that unfolding fs_wf_iff by blast
  moreover have "i < n" if "(q, Ino i) \<in> set (v_ents v) \<union> set (v_disk v)" for q i
    using assms(2,3,4,6) that unfolding fs_wf_iff by (blast intro: less_le_trans)
  ultimately show ?thesis
    using assms(1,5) unfolding fs_wf_iff fs_step_def by blast
qed

lemma fs_wf_inodes: "fs_step s ((o_fs s)\<lparr>v_inodes := f\<rparr>) (o_next s) s' \<Longrightarrow> fs_wf s \<Longrightarrow> fs_wf s'"
  unfolding fs_wf_iff fs_step_def is_dir_def ent_def by simp

lemma fs_wf_MkdirAll:
  assumes wf: "fs_wf s" and call: "MkdirAll s p = (r, s')"
  shows "fs_wf s'"
  using call
proof (cases rule: MkdirAll_cases)
  case made
  let ?new = "filter (\<lambda>q. ent s q = None) (ancestors p)"
  have v: "v_ents (o_fs s') = v_ents (o_fs s) @ map (\<lambda>q. (q, Dir)) ?new"
    using made by (simp add: fs_step_def)
  have dir: "is_dir s' q" if "q = [] \<or> q \<in> set (ancestors p) \<or> is_dir s q" for q
    using that made(2)
    by (auto simp: is_dir_def ent_def v map_of_dirs map_add_def list_all_iff split: option.splits)
  have anc: "q \<noteq> [] \<and> (butlast q = [] \<or> butlast q \<in> set (ancestors p))" if "q \<in> set (ancestors p)" for q
  proof -
    from that obtain k where k: "k < length p" "q = take (Suc k) p" by (auto simp: ancestors_def)
    then have "butlast q = take k p" by (simp add: butlast_take)
    with k show ?thesis by (cases k) (auto simp: ancestors_def)
  qed
  from wf dir anc made(3) show ?thesis
    unfolding fs_wf_iff v by (auto simp: fs_step_def)
qed (use wf in \<open>auto intro: fs_wf_same\<close>)

lemma fs_wf_OpenExcl:
  assumes wf: "fs_wf s" and call: "OpenExcl s p = (r, s')" and p: "p \<noteq> []"
  shows "fs_wf s'"
  using call
proof (cases rule: OpenExcl_cases)
  case opened
  show ?thesis
    by (rule fs_wf_step [OF opened(4) wf])
       (use opened(1-3) p set_update [of p "Ino (o_next s)" "v_ents (o_fs s)"] opened(4)
        in \<open>auto simp: is_dir_def ent_def fs_step_def\<close>)
qed (use wf in \<open>auto intro: fs_wf_same\<close>)

lemma fs_wf_File_Write: "fs_wf s \<Longrightarrow> File_Write i s b = (n, r, s') \<Longrightarrow> fs_wf s'"
  by (erule File_Write_cases) (auto intro: fs_wf_same fs_wf_inodes)

lemma fs_wf_File_Sync: "fs_wf s \<Longrightarrow> File_Sync s i = (r, s') \<Longrightarrow> fs_wf s'"
  by (erule File_Sync_cases) (auto intro: fs_wf_same fs_wf_inodes)

lemma fs_wf_File_Close: "fs_wf s \<Longrightarrow> File_Close s = (r, s') \<Longrightarrow> fs_wf s'"
  by (erule File_Close_cases) (auto intro: fs_wf_same)

lemma fs_wf_Remove:
  assumes wf: "fs_wf s" and call: "Remove s p = (r, s')"
  shows "fs_wf s'"
  using call
proof (cases rule: Remove_cases)
  case removed
  show ?thesis
    by (rule fs_wf_step [OF removed(4) wf])
       (use removed(2,3) removed(4) wf in \<open>auto simp: set_delete is_dir_def ent_def fs_step_def list_ex_iff child_def fs_wf_iff\<close>)
qed (use wf in \<open>auto intro: fs_wf_same\<close>)

lemma fs_wf_Rename:
  assumes wf: "fs_wf s" and call: "Rename s p q = (r, s')" and q: "q \<noteq> []"
  shows "fs_wf s'"
  using call
proof (cases rule: Rename_cases)
  case (renamed i)
  have i: "i < o_next s"
    using wf renamed(2) by (auto simp: fs_wf_iff ent_def dest: map_of_SomeD)
  show ?thesis
    by (rule fs_wf_step [OF renamed(5) wf])
       (use renamed(2-4) renamed(5) i q set_update [of q "Ino i" "AList.delete p (v_ents (o_fs s))"]
        in \<open>auto simp: set_delete is_dir_def ent_def fs_step_def\<close>)
qed (use wf in \<open>auto intro: fs_wf_same\<close>)

lemma fs_wf_Open: "fs_wf s \<Longrightarrow> Open s p = (r, s') \<Longrightarrow> fs_wf s'"
  by (erule Open_cases) (auto intro: fs_wf_same)

lemma fs_wf_Dir_Sync:
  assumes wf: "fs_wf s" and call: "Dir_Sync s d = (r, s')"
  shows "fs_wf s'"
  using call
proof (cases rule: Dir_Sync_cases)
  case synced
  show ?thesis
    by (rule fs_wf_step [OF synced(2) wf])
       (use synced(2) in \<open>auto simp: sync_entries_def is_dir_def ent_def fs_step_def\<close>)
qed (use wf in \<open>auto intro: fs_wf_same\<close>)

lemma fs_wf_rand_Read16: "fs_wf s \<Longrightarrow> rand_Read16 s = (r, s') \<Longrightarrow> fs_wf s'"
  by (erule rand_Read16_cases) (auto intro: fs_wf_same)

section \<open>Trails\<close>

text \<open>Every view recorded since \<open>s0\<close>, and the present one, satisfies \<open>P\<close>.\<close>

definition trail :: "(fsview \<Rightarrow> bool) \<Rightarrow> os \<Rightarrow> os \<Rightarrow> bool" where
  "trail P s0 s \<longleftrightarrow> (\<exists>hs. o_hist s = o_hist s0 @ hs \<and> list_all P hs \<and> o_fs s = last (o_fs s0 # hs)) \<and> P (o_fs s)"

lemma trail_refl: "P (o_fs s) \<Longrightarrow> trail P s s"
  by (simp add: trail_def)

lemma trail_step:
  assumes "trail P s0 s" "fs_step s v n s'" "P v"
  shows "trail P s0 s'"
proof -
  from assms(1) obtain hs where "o_hist s = o_hist s0 @ hs" "list_all P hs"
    by (auto simp only: trail_def)
  with assms(2,3) show ?thesis
    unfolding trail_def fs_step_def by (intro conjI exI [of _ "hs @ [v]"]) simp_all
qed

lemma trail_same: "trail P s0 s \<Longrightarrow> same_fs s s' \<Longrightarrow> trail P s0 s'"
  by (simp add: trail_def same_fs_def)

lemma trail_mono: "trail P s0 s \<Longrightarrow> (\<And>v. P v \<Longrightarrow> Q v) \<Longrightarrow> trail Q s0 s"
  by (auto simp: trail_def list_all_iff)

lemma trail_view: "trail P s0 s \<Longrightarrow> P (o_fs s)"
  by (simp add: trail_def)

lemma trail_last:
  assumes "trail P s0 s"
  shows "o_fs s = o_fs s0 \<or> o_fs s \<in> set (drop (length (o_hist s0)) (o_hist s))"
proof -
  from assms obtain hs where "o_hist s = o_hist s0 @ hs" "o_fs s = last (o_fs s0 # hs)"
    by (auto simp only: trail_def)
  then show ?thesis by (cases hs) auto
qed

lemma trail_hist: "trail P s0 s \<Longrightarrow> v \<in> set (drop (length (o_hist s0)) (o_hist s)) \<Longrightarrow> P v"
  by (auto simp: trail_def list_all_iff)

section \<open>What a call does to file contents\<close>

lemma content_same: "same_fs s s' \<Longrightarrow> content s' = content s"
  by (rule content_cong) (simp add: same_fs_def)

lemma content_MkdirAll: "content (snd (MkdirAll s p)) = content s"
proof -
  obtain r s' where 1: "MkdirAll s p = (r, s')" by fastforce
  then have "content s' = content s"
  proof (cases rule: MkdirAll_cases)
    case made
    then show ?thesis by (simp add: fs_step_def fun_eq_iff file_at_content inode_of_def)
  qed (simp_all add: content_same)
  with 1 show ?thesis by simp
qed

lemma content_Rename:
  assumes "Rename s p q = (r, s')"
  obtains (failed) e where "r = Some e" "content s' = content s"
  | (moved) d where "r = None" "content s p = Some d" "content s' = ((content s)(p := None))(q \<mapsto> d)"
  using assms
proof (cases rule: Rename_cases)
  case (failed e)
  with that(1) content_same show thesis by blast
next
  case (renamed i)
  then have "file_at (v_ents (o_fs s)) p = Some i" by (simp add: file_at_def ent_def)
  with renamed(1,5) show thesis
    by (intro moved [of "i_data (inode_of s i)"]) (auto simp: fs_step_def fun_eq_iff file_at_content inode_of_def)
qed

lemma content_Remove:
  assumes "Remove s p = (r, s')"
  shows "content s' = (if r = None then (content s)(p := None) else content s)"
  using assms
proof (cases rule: Remove_cases)
  case removed
  then show ?thesis by (auto simp: fs_step_def fun_eq_iff file_at_content inode_of_def)
qed (simp add: content_same)

section \<open>Directory listings\<close>

lemma names_in_ent:
  assumes "fs_wf s"
  shows "n \<in> set (names_in s d) \<longleftrightarrow> ent s (d @ [n]) \<noteq> None"
proof
  assume "n \<in> set (names_in s d)"
  then obtain p e where "(p, e) \<in> set (v_ents (o_fs s))" "child d p" "n = last p"
    by (auto simp: names_in_def)
  then have "(d @ [n], e) \<in> set (v_ents (o_fs s))" by (auto simp: child_def)
  then show "ent s (d @ [n]) \<noteq> None" by (auto simp: ent_def map_of_eq_None_iff intro: rev_image_eqI)
next
  assume "ent s (d @ [n]) \<noteq> None"
  then obtain e where "(d @ [n], e) \<in> set (v_ents (o_fs s))" by (auto simp: ent_def dest: map_of_SomeD)
  then show "n \<in> set (names_in s d)" by (force simp: names_in_def child_def)
qed

end
