(* ===== verification/Monitor_Status.thy ===== *)
theory Monitor_Status
  imports Os_Fs
begin

text \<open>
  The health tracker of \<^verbatim>\<open>internal/monitor/status.go\<close>: the counters the sender and the
  receiver update. Every method holds the tracker's mutex, so each is one atomic step; the wall
  clock is the argument \<open>now\<close>, in nanoseconds. Totals are 64-bit words.
\<close>

section \<open>The tracker\<close>

datatype health_state = StateOK | StateWarn | StateFail

text \<open>States are ordered by severity.\<close>

instantiation health_state :: linorder
begin

definition less_eq_health_state :: "health_state \<Rightarrow> health_state \<Rightarrow> bool" where
  "a \<le> b \<longleftrightarrow> a = StateOK \<or> b = StateFail \<or> a = b"

definition less_health_state :: "health_state \<Rightarrow> health_state \<Rightarrow> bool" where
  "a < b \<longleftrightarrow> a \<le> b \<and> a \<noteq> (b :: health_state)"

instance
proof
  fix x y z :: health_state
  show "x < y \<longleftrightarrow> x \<le> y \<and> \<not> y \<le> x" by (cases x; cases y) (simp_all add: less_eq_health_state_def less_health_state_def)
  show "x \<le> x" by (simp add: less_eq_health_state_def)
  show "x \<le> y \<Longrightarrow> y \<le> z \<Longrightarrow> x \<le> z" by (auto simp: less_eq_health_state_def)
  show "x \<le> y \<Longrightarrow> y \<le> x \<Longrightarrow> x = y" by (auto simp: less_eq_health_state_def)
  show "x \<le> y \<or> y \<le> x" by (cases x; cases y) (simp_all add: less_eq_health_state_def)
qed

end

lemma health_le [simp]:
  "StateOK \<le> st" "st \<le> StateFail" "st \<le> StateOK \<longleftrightarrow> st = StateOK" "StateFail \<le> st \<longleftrightarrow> st = StateFail"
  by (cases st; simp add: less_eq_health_state_def)+

lemma health_max [simp]:
  "max StateOK st = st" "max st StateOK = st" "max StateFail st = StateFail" "max st StateFail = StateFail"
  by (simp_all add: max_def)

datatype role = RoleSender | RoleReceiver

record tracker =
  t_nodeID :: string
  t_role :: role
  t_watchDir :: path
  t_startTime :: int
  t_diskWarnPct :: int
  t_diskFailPct :: int
  t_stallAfter :: int
  t_staleAfter :: int
  t_filesTotal :: u64
  t_bytesTotal :: u64
  t_errorsTotal :: u64
  t_lastOkTime :: int
  t_recentErrors :: "int list"
  t_waitingFiles :: int
  t_failedFiles :: int
  t_activeConnections :: int

definition NewTracker :: "int \<Rightarrow> string \<Rightarrow> role \<Rightarrow> path \<Rightarrow> int \<Rightarrow> int \<Rightarrow> int \<Rightarrow> int \<Rightarrow> tracker" where
  "NewTracker now nodeID role watchDir diskWarnPct diskFailPct stallAfter staleAfter =
     \<lparr>t_nodeID = nodeID, t_role = role, t_watchDir = watchDir, t_startTime = now,
      t_diskWarnPct = (if diskWarnPct \<le> 0 then 15 else diskWarnPct),
      t_diskFailPct = (if diskFailPct \<le> 0 then 5 else diskFailPct),
      t_stallAfter = stallAfter, t_staleAfter = staleAfter,
      t_filesTotal = 0, t_bytesTotal = 0, t_errorsTotal = 0, t_lastOkTime = now, t_recentErrors = [],
      t_waitingFiles = 0, t_failedFiles = 0, t_activeConnections = 0\<rparr>"

definition Tracker_RecordSuccess :: "int \<Rightarrow> u64 \<Rightarrow> tracker \<Rightarrow> tracker" where
  "Tracker_RecordSuccess now bytes t =
     t\<lparr>t_filesTotal := t_filesTotal t + 1, t_bytesTotal := t_bytesTotal t + bytes, t_lastOkTime := now\<rparr>"

definition Tracker_RecordError :: "int \<Rightarrow> tracker \<Rightarrow> tracker" where
  "Tracker_RecordError now t =
     t\<lparr>t_errorsTotal := t_errorsTotal t + 1, t_recentErrors := t_recentErrors t @ [now]\<rparr>"

definition SetQueueCounts :: "int \<Rightarrow> int \<Rightarrow> tracker \<Rightarrow> tracker" where
  "SetQueueCounts waiting failed t = t\<lparr>t_waitingFiles := waiting, t_failedFiles := failed\<rparr>"

definition SetActiveConnections :: "int \<Rightarrow> tracker \<Rightarrow> tracker" where
  "SetActiveConnections n t = t\<lparr>t_activeConnections := n\<rparr>"

definition pruneErrors :: "int \<Rightarrow> tracker \<Rightarrow> nat \<times> tracker" where
  "pruneErrors cutoff t =
     (let active = filter (\<lambda>ts. cutoff < ts) (t_recentErrors t)
      in (length active, t\<lparr>t_recentErrors := active\<rparr>))"

end
