(* ===== verification/Receiver.thy ===== *)
theory Receiver
  imports Wire_Conn Os_Laws Monitor_Status
begin

text \<open>
  The receiving daemon: staging files and their clean-up (\<^verbatim>\<open>internal/receiver/stager.go\<close>),
  the commit barrier (\<^verbatim>\<open>committer.go\<close>) and the connection handler with its loop over files
  (\<^verbatim>\<open>listener.go\<close>). Each function takes the operating system, the connection and the tracker
  it works on and returns them changed.
\<close>

section \<open>Staging\<close>

definition stagingDir :: "path \<Rightarrow> path" where
  "stagingDir incomingDir = incomingDir @ [''.staging'']"

text \<open>
  \<^verbatim>\<open>filepath.Walk\<close> visits the files under the staging directory in lexical order; the
  callback removes those that are no directory and end in \<^verbatim>\<open>.tmp\<close>, ignoring errors.
  When the staging directory cannot be read the walk is skipped, also without an error.
\<close>

definition walk_files :: "os \<Rightarrow> path \<Rightarrow> path list" where
  "walk_files s d =
     sort (remdups (filter (\<lambda>p. prefix d p \<and> ent s p \<noteq> Some Dir) (map fst (v_ents (o_fs s)))))"

fun remove_all :: "os \<Rightarrow> path list \<Rightarrow> os" where
  "remove_all s [] = s"
| "remove_all s (p # ps) = remove_all (snd (Remove s p)) ps"

definition BootCleanup :: "os \<Rightarrow> path \<Rightarrow> error option \<times> os" where
  "BootCleanup s incomingDir =
     (let staging = stagingDir incomingDir in
      case MkdirAll s staging of
        (Some err, s1) \<Rightarrow>
          (Some (Wrap (''failed to create staging dir '' @ path_string staging @ '': '') err ''''), s1)
      | (None, s1) \<Rightarrow>
     (case fault s1 of
        (Some _, s2) \<Rightarrow> (None, s2)
      | (None, s2) \<Rightarrow>
          (None, remove_all s2 (filter (\<lambda>p. HasSuffix (last p) ''.tmp'') (walk_files s2 staging)))))"

definition CreateStagedFile :: "os \<Rightarrow> path \<Rightarrow> (error + nat \<times> path) \<times> os" where
  "CreateStagedFile s incomingDir =
     (let staging = stagingDir incomingDir in
      case MkdirAll s staging of
        (Some err, s1) \<Rightarrow> (Inl (Wrap ''failed to ensure staging directory: '' err ''''), s1)
      | (None, s1) \<Rightarrow>
     (case rand_Read16 s1 of
        (Inl err, s2) \<Rightarrow> (Inl (Wrap ''crypto rand failed: '' err ''''), s2)
      | (Inr randBytes, s2) \<Rightarrow>
     (let stagedName = EncodeToString randBytes @ ''.tmp''; stagedPath = staging @ [stagedName] in
      case OpenExcl s2 stagedPath of
        (Inl err, s3) \<Rightarrow>
          (Inl (Wrap (''failed to open staging file '' @ path_string stagedPath @ '': '') err ''''), s3)
      | (Inr f, s3) \<Rightarrow> (Inr (f, stagedPath), s3))))"

section \<open>The commit barrier\<close>

definition CommitBarrier ::
  "'w writer \<Rightarrow> os \<Rightarrow> nat \<Rightarrow> path \<Rightarrow> path \<Rightarrow> string \<Rightarrow> 'w \<Rightarrow> error option \<times> os \<times> 'w"
where
  "CommitBarrier wr s stagedFile stagedPath incomingDir filename conn =
     (case File_Sync s stagedFile of
        (Some err, s1) \<Rightarrow>
          (let s2 = snd (File_Close s1); s3 = snd (Remove s2 stagedPath)
           in (Some (Wrap ''failed to sync staged file: '' err ''''), s3, conn))
      | (None, s1) \<Rightarrow>
     (case File_Close s1 of
        (Some err, s2) \<Rightarrow>
          (Some (Wrap ''failed to close staged file: '' err ''''), snd (Remove s2 stagedPath), conn)
      | (None, s2) \<Rightarrow>
     (let targetPath = incomingDir @ [filename] in
      case Rename s2 stagedPath targetPath of
        (Some err, s3) \<Rightarrow>
          (Some (Wrap ''failed to atomically rename staged file: '' err ''''), snd (Remove s3 stagedPath), conn)
      | (None, s3) \<Rightarrow>
     (case Open s3 incomingDir of
        (Inl err, s4) \<Rightarrow>
          (Some (Wrap ''failed to open destination directory for sync: '' err ''''), s4, conn)
      | (Inr _, s4) \<Rightarrow>
     (case Dir_Sync s4 incomingDir of (syncErr, s5) \<Rightarrow>
     (let s6 = snd (File_Close s5) in
      case syncErr of
        Some err \<Rightarrow> (Some (Wrap ''failed to sync destination directory inode: '' err ''''), s6, conn)
      | None \<Rightarrow>
     (case WriteAck wr conn of
        (Some err, conn1) \<Rightarrow> (Some (Wrap ''failed to write 0x00 ACK to sender: '' err ''''), s6, conn1)
      | (None, conn1) \<Rightarrow> (None, s6, conn1))))))))"

section \<open>The connection handler\<close>

text \<open>
  \<open>s_stop\<close> is the time at which \<^verbatim>\<open>stopCh\<close> is closed, if it is. The copy into the
  staging file runs with the 32 KiB buffer of \<^verbatim>\<open>os.File.ReadFrom\<close>.
\<close>

record server =
  s_incomingDir :: path
  s_listenAddr :: string
  s_certFile :: string
  s_keyFile :: string
  s_allowedSenderFPs :: "string list"
  s_maxSize :: u64
  s_stop :: "int option"

definition file_copy_buf :: nat where "file_copy_buf = 32 * 1024"

text \<open>
  One turn of the loop of \<^verbatim>\<open>handleConnection\<close>; the flag says whether the loop goes on.
  \<open>None\<close> is a turn that does not return.
\<close>

definition nack_close ::
  "conn writer \<Rightarrow> os \<Rightarrow> conn \<Rightarrow> tracker option \<Rightarrow> string \<Rightarrow> bool \<times> os \<times> conn \<times> tracker option"
where
  "nack_close wr s c t msg =
     (let c1 = snd (WriteNack wr c msg)
      in (False, s, c1, map_option (Tracker_RecordError (c_clock c1)) t))"

definition handle_request ::
  "server \<Rightarrow> os \<Rightarrow> conn \<Rightarrow> tracker option \<Rightarrow> (bool \<times> os \<times> conn \<times> tracker option) option"
where
  "handle_request sv s c t =
     (if expired (s_stop sv) (c_clock c) then Some (False, s, c, t)
      else
     (let c0 = SetReadDeadline c (c_clock c + ReceiverIdleTimeout) in
      case ReadRequestHeader conn_Read c0 (s_maxSize sv) of None \<Rightarrow> None
      | Some (_, _, Some err, c1) \<Rightarrow>
          if errors_Is err EOF \<or> errors_Is err ErrClosed then Some (False, s, c1, t)
          else if is_timeout err then Some (False, s, c1, t)
          else Some (nack_close conn_Write s c1 t (Error err))
      | Some (filename, payloadSize, None, c1) \<Rightarrow>
     (case CreateStagedFile s (s_incomingDir sv) of
        (Inl err, s1) \<Rightarrow>
          Some (nack_close (DeadlineConn_Write ReadWriteTimeout) s1 c1 t
                 (''internal error creating staging file: '' @ Error err))
      | (Inr (stagedFile, stagedPath), s1) \<Rightarrow>
     (case ReceiveStream file_copy_buf (File_Write stagedFile) (DeadlineConn_Read ReadWriteTimeout)
             s1 c1 payloadSize of None \<Rightarrow> None
      | Some (Some err, c2, s2) \<Rightarrow>
          (let s3 = snd (File_Close s2); s4 = snd (Remove s3 stagedPath)
           in Some (nack_close (DeadlineConn_Write ReadWriteTimeout) s4 c2 t (''stream failure: '' @ Error err)))
      | Some (None, c2, s2) \<Rightarrow>
     (case CommitBarrier (DeadlineConn_Write ReadWriteTimeout) s2 stagedFile stagedPath
             (s_incomingDir sv) filename c2 of
        (Some err, s3, c3) \<Rightarrow>
          Some (nack_close (DeadlineConn_Write ReadWriteTimeout) s3 c3 t
                 (''commit barrier failure: '' @ Error err))
      | (None, s3, c3) \<Rightarrow>
          Some (True, s3, c3, map_option (Tracker_RecordSuccess (c_clock c3) payloadSize) t))))))"

partial_function (option) handle_loop ::
  "server \<Rightarrow> os \<Rightarrow> conn \<Rightarrow> tracker option \<Rightarrow> (os \<times> conn \<times> tracker option) option"
where
  "handle_loop sv s c t =
     (case handle_request sv s c t of
        None \<Rightarrow> None
      | Some (again, s1, c1, t1) \<Rightarrow> if again then handle_loop sv s1 c1 t1 else Some (s1, c1, t1))"

text \<open>\<open>hs\<close> is the result of \<^verbatim>\<open>tlsConn.Handshake()\<close>.\<close>

definition handleConnection ::
  "server \<Rightarrow> error option \<Rightarrow> os \<Rightarrow> conn \<Rightarrow> tracker option \<Rightarrow> (os \<times> conn \<times> tracker option) option"
where
  "handleConnection sv hs s c t =
     (let c0 = SetDeadline c (c_clock c + HandshakeTimeout) in
      case hs of
        Some err \<Rightarrow> Some (s, c0, map_option (Tracker_RecordError (c_clock c0)) t)
      | None \<Rightarrow> handle_loop sv s c0 t)"

end
