(* ===== verification/Receiver_Laws.thy ===== *)
theory Receiver_Laws
  imports Receiver
begin

text \<open>
  What one turn of the receiver's connection loop does to the file system and the connection:
  while a file is received only its staging file changes, the commit moves a verified and synced
  file to its target in one step, and an ACK is sent only after both the file and its directory
  entry are on stable storage. The statements range over every view of the file system that the
  turn passes through, so they also cover a crash in the middle of it.
\<close>

section \<open>Views during a turn\<close>

text \<open>
  Relative to the view \<open>v0\<close> at the beginning of the turn, when \<open>n\<close> was the next inode: only
  files at the paths in \<open>A\<close> may differ.
\<close>

definition untouched :: "path set \<Rightarrow> nat \<Rightarrow> fsview \<Rightarrow> fsview \<Rightarrow> bool" where
  "untouched A n v0 v \<longleftrightarrow>
     (\<forall>q. q \<notin> A \<longrightarrow> file_at (v_ents v) q = file_at (v_ents v0) q) \<and>
     v_disk v = v_disk v0 \<and> (\<forall>i<n. v_inodes v i = v_inodes v0 i)"

text \<open>The staging file \<open>sp\<close> has become the file at \<open>tgt\<close>, with the synced content \<open>p\<close>.\<close>

definition landed :: "path \<Rightarrow> path \<Rightarrow> nat \<Rightarrow> fsview \<Rightarrow> nat \<Rightarrow> byte list \<Rightarrow> fsview \<Rightarrow> bool" where
  "landed sp tgt n v0 f p v \<longleftrightarrow>
     (\<forall>q. q \<noteq> tgt \<and> q \<noteq> sp \<longrightarrow> file_at (v_ents v) q = file_at (v_ents v0) q) \<and>
     file_at (v_ents v) sp = None \<and> file_at (v_ents v) tgt = Some f \<and>
     i_data (v_inodes v f) = p \<and> i_synced (v_inodes v f) = p \<and>
     (\<forall>q. file_at (v_disk v) q = file_at (v_disk v0) q \<or> file_at (v_disk v) q = file_at (v_ents v) q) \<and>
     (\<forall>i<n. v_inodes v i = v_inodes v0 i)"

definition turn_view :: "path \<Rightarrow> path \<Rightarrow> nat \<Rightarrow> fsview \<Rightarrow> nat \<Rightarrow> byte list \<Rightarrow> fsview \<Rightarrow> bool" where
  "turn_view sp tgt n v0 f p v \<longleftrightarrow> untouched {sp} n v0 v \<or> landed sp tgt n v0 f p v"

lemma untouched_refl: "untouched A n v v"
  by (simp add: untouched_def)

lemma untouched_mono: "untouched A n v0 v \<Longrightarrow> A \<subseteq> B \<Longrightarrow> untouched B n v0 v"
  by (auto simp: untouched_def)

text \<open>A state of the turn in which only the files in \<open>A\<close> may have changed.\<close>

definition clean :: "path set \<Rightarrow> os \<Rightarrow> os \<Rightarrow> bool" where
  "clean A s0 s \<longleftrightarrow> fs_wf s \<and> o_next s0 \<le> o_next s \<and> (o_faults s0 = [] \<longrightarrow> o_faults s = []) \<and>
     trail (untouched A (o_next s0) (o_fs s0)) s0 s"

lemma clean_refl: "fs_wf s \<Longrightarrow> clean A s s"
  by (simp add: clean_def trail_refl untouched_refl)

lemma clean_mono: "clean A s0 s \<Longrightarrow> A \<subseteq> B \<Longrightarrow> clean B s0 s"
  by (auto simp: clean_def intro: trail_mono untouched_mono)

lemma clean_same: "clean A s0 s \<Longrightarrow> same_fs s s' \<Longrightarrow> clean A s0 s'"
  using fs_wf_same trail_same by (auto simp: clean_def same_fs_def)

lemma clean_step:
  assumes "clean A s0 s" "fs_step s v n s'" "fs_wf s'" "o_next s \<le> n"
    and "untouched A (o_next s0) (o_fs s0) (o_fs s) \<Longrightarrow> untouched A (o_next s0) (o_fs s0) v"
  shows "clean A s0 s'"
  using assms trail_step [OF _ assms(2)] trail_view
  by (fastforce simp: clean_def fs_step_def)

lemma clean_MkdirAll:
  assumes "clean A s0 s" "MkdirAll s p = (r, s')"
  shows "clean A s0 s'"
  using assms(2)
proof (cases rule: MkdirAll_cases)
  case made
  have "fs_wf s'" using assms fs_wf_MkdirAll by (auto simp: clean_def)
  then show ?thesis by (rule clean_step [OF assms(1) made(3)]) (auto simp: untouched_def)
qed (use assms in \<open>auto intro: clean_same\<close>)

lemma clean_OpenExcl:
  assumes "clean A s0 s" "OpenExcl s p = (r, s')" "p \<noteq> []" "p \<in> A"
  shows "clean A s0 s'"
  using assms(2)
proof (cases rule: OpenExcl_cases)
  case opened
  have "fs_wf s'" "o_next s0 \<le> o_next s" using assms fs_wf_OpenExcl by (auto simp: clean_def)
  then show ?thesis
    using assms(4) by (intro clean_step [OF assms(1) opened(4)]) (auto simp: untouched_def)
qed (use assms in \<open>auto intro: clean_same\<close>)

lemma clean_File_Write:
  assumes "clean A s0 s" "File_Write f s b = (n, r, s')" "o_next s0 \<le> f"
  shows "clean A s0 s'"
  using assms(2)
proof (cases rule: File_Write_cases)
  case wrote
  have "fs_wf s'" using assms fs_wf_File_Write by (auto simp: clean_def)
  then show ?thesis
    using assms(3) by (intro clean_step [OF assms(1) wrote]) (auto simp: untouched_def)
qed (use assms in \<open>auto intro: clean_same\<close>)

lemma clean_File_Sync:
  assumes "clean A s0 s" "File_Sync s f = (r, s')" "o_next s0 \<le> f"
  shows "clean A s0 s'"
  using assms(2)
proof (cases rule: File_Sync_cases)
  case synced
  have "fs_wf s'" using assms fs_wf_File_Sync by (auto simp: clean_def)
  then show ?thesis
    using assms(3) by (intro clean_step [OF assms(1) synced(2)]) (auto simp: untouched_def)
qed (use assms in \<open>auto intro: clean_same\<close>)

lemma clean_File_Close: "clean A s0 s \<Longrightarrow> File_Close s = (r, s') \<Longrightarrow> clean A s0 s'"
  by (erule File_Close_cases) (auto intro: clean_same)

lemma clean_rand_Read16: "clean A s0 s \<Longrightarrow> rand_Read16 s = (r, s') \<Longrightarrow> clean A s0 s'"
  by (erule rand_Read16_cases) (auto intro: clean_same)

lemma clean_Remove:
  assumes "clean A s0 s" "Remove s p = (r, s')" "p \<in> A"
  shows "clean A s0 s'"
  using assms(2)
proof (cases rule: Remove_cases)
  case removed
  have "fs_wf s'" using assms fs_wf_Remove by (auto simp: clean_def)
  then show ?thesis
    using assms(3) by (intro clean_step [OF assms(1) removed(4)]) (auto simp: untouched_def)
qed (use assms in \<open>auto intro: clean_same\<close>)

lemmas clean_calls = clean_MkdirAll clean_OpenExcl clean_File_Write clean_File_Sync clean_File_Close
  clean_rand_Read16 clean_Remove

text \<open>Without faults a regular file is removed.\<close>

lemma Remove_file:
  assumes "Remove s p = (r, s')" "fs_wf s" "ent s p = Some (Ino i)" "o_faults s = []"
  shows "ent s' p = None"
  using assms(1)
proof (cases rule: Remove_cases)
  case (failed e)
  have p: "p \<noteq> []" using assms(2,3) by (auto simp: fs_wf_iff ent_def dest: map_of_SomeD)
  have "\<not> is_dir s p" using assms(3) p by (simp add: is_dir_def)
  moreover have "is_dir s p" if "(q, e) \<in> set (v_ents (o_fs s))" "child p q" for q e
    using assms(2) that by (auto simp: fs_wf_iff child_def)
  ultimately have "\<not> list_ex (\<lambda>(q, _). child p q) (v_ents (o_fs s))"
    by (auto simp: list_ex_iff)
  with p show ?thesis using failed(3) assms(3,4) by auto
qed (simp add: fs_step_def ent_def)

section \<open>The staged file\<close>

definition staged :: "os \<Rightarrow> path \<Rightarrow> nat \<Rightarrow> os \<Rightarrow> bool" where
  "staged s0 sp f s \<longleftrightarrow> clean {sp} s0 s \<and> ent s sp = Some (Ino f) \<and> o_next s0 \<le> f"

text \<open>The names of staging files: 32 hexadecimal digits and the suffix.\<close>

definition staging_path :: "path \<Rightarrow> path \<Rightarrow> bool" where
  "staging_path incomingDir sp \<longleftrightarrow>
     (\<exists>rb. length rb = 16 \<and> sp = stagingDir incomingDir @ [EncodeToString rb @ ''.tmp''])"

lemma CreateStagedFile_ok:
  assumes wf: "fs_wf s0" and call: "CreateStagedFile s0 dir = (Inr (f, sp), s)"
  shows "staging_path dir sp \<and> staged s0 sp f s \<and> file_data f s = [] \<and> file_at (v_ents (o_fs s0)) sp = None"
proof -
  obtain m s1 where 1: "MkdirAll s0 (stagingDir dir) = (m, s1)" by fastforce
  obtain rb s2 where 2: "rand_Read16 s1 = (rb, s2)" by fastforce
  from call 1 2 have m: "m = None" by (auto simp: CreateStagedFile_def Let_def split: option.splits)
  from call 1 2 m obtain b where rb: "rb = Inr b"
    by (cases rb) (auto simp: CreateStagedFile_def Let_def)
  from call 1 2 m rb have sp: "sp = stagingDir dir @ [EncodeToString b @ ''.tmp'']" and
    3: "OpenExcl s2 sp = (Inr f, s)"
    by (auto simp: CreateStagedFile_def Let_def split: prod.splits sum.splits)
  have b: "length b = 16" using 2 rb by (auto elim!: rand_Read16_cases)
  have c2: "clean {sp} s0 s2"
    using clean_calls(6,1) clean_refl [OF wf] 1 2 by blast
  have ne: "sp \<noteq> []" by (simp add: sp)
  have c3: "clean {sp} s0 s" by (rule clean_OpenExcl [OF c2 3 ne]) simp
  from 3 show ?thesis
  proof (cases rule: OpenExcl_cases)
    case opened
    have "file_at (v_ents (o_fs s1)) q = file_at (v_ents (o_fs s0)) q" for q
      using 1 by (cases rule: MkdirAll_cases) (auto simp: same_fs_def fs_step_def)
    moreover have "o_fs s2 = o_fs s1"
      using 2 by (auto elim!: rand_Read16_cases simp: same_fs_def)
    moreover have "o_next s0 \<le> o_next s2" using c2 by (simp add: clean_def)
    moreover have "file_at (v_ents (o_fs s2)) sp = None"
      using opened(2) by (simp add: ent_def file_at_def)
    ultimately show ?thesis
      using opened b sp c3
      by (auto simp: staging_path_def staged_def fs_step_def ent_def file_data_def inode_of_def)
  qed simp
qed

lemma CreateStagedFile_err:
  assumes wf: "fs_wf s0" and call: "CreateStagedFile s0 dir = (Inl e, s)"
  shows "clean {} s0 s"
proof -
  obtain m s1 where 1: "MkdirAll s0 (stagingDir dir) = (m, s1)" by fastforce
  have c1: "clean {} s0 s1" by (rule clean_MkdirAll [OF clean_refl [OF wf] 1])
  obtain rb s2 where 2: "rand_Read16 s1 = (rb, s2)" by fastforce
  have c2: "clean {} s0 s2" by (rule clean_rand_Read16 [OF c1 2])
  show ?thesis
  proof (cases "s = s1 \<or> s = s2")
    case False
    then obtain q r where "OpenExcl s2 q = (Inl r, s)"
      using call 1 2 by (auto simp: CreateStagedFile_def Let_def split: option.splits sum.splits prod.splits)
    then show ?thesis by (rule OpenExcl_cases) (auto intro: clean_same [OF c2])
  qed (use c1 c2 in auto)
qed

lemma staged_File_Write:
  assumes "staged s0 sp f s" "File_Write f s b = (n, r, s')"
  shows "staged s0 sp f s'"
  using assms clean_File_Write [of "{sp}" s0 s f b n r s']
  by (auto simp: staged_def same_fs_def fs_step_def ent_def elim!: File_Write_cases)

section \<open>The commit barrier\<close>

lemma map_of_filter_key: "map_of (filter (\<lambda>(k, _). P k) xs) q = (if P q then map_of xs q else None)"
  by (induction xs) auto

lemma file_at_sync:
  "file_at (v_disk (sync_entries d v)) q = (if child d q then file_at (v_ents v) q else file_at (v_disk v) q)"
  by (simp add: file_at_def sync_entries_def map_add_def
      map_of_filter_key [of "child d"] map_of_filter_key [of "\<lambda>p. \<not> child d p"] split: option.splits)

lemma landed_sync: "landed sp tgt n v0 f p v \<Longrightarrow> landed sp tgt n v0 f p (sync_entries d v)"
  by (auto simp: landed_def file_at_sync) (auto simp: sync_entries_def)

lemma staged_Remove:
  assumes st: "staged s0 sp f s" and call: "Remove s sp = (r, s')"
  shows "clean {sp} s0 s' \<and> (o_faults s0 = [] \<longrightarrow> ent s' sp = None)"
  using clean_Remove [of "{sp}" s0 s sp r s'] Remove_file [OF call] assms
  by (auto simp: staged_def clean_def)

lemma staged_same: "staged s0 sp f s \<Longrightarrow> same_fs s s' \<Longrightarrow> staged s0 sp f s'"
  by (auto simp: staged_def dest: same_fs_ent intro: clean_same)

text \<open>Up to and including the rename.\<close>

lemma landed_rename:
  assumes "untouched {sp} n v0 v" "sp \<noteq> tgt" "i_data (v_inodes v f) = p" "i_synced (v_inodes v f) = p"
  shows "landed sp tgt n v0 f p (v\<lparr>v_ents := AList.update tgt (Ino f) (AList.delete sp (v_ents v))\<rparr>)"
  using assms by (auto simp: landed_def untouched_def)

definition arrived :: "os \<Rightarrow> path \<Rightarrow> path \<Rightarrow> nat \<Rightarrow> byte list \<Rightarrow> os \<Rightarrow> bool" where
  "arrived s0 sp tgt f p s \<longleftrightarrow> fs_wf s \<and> (o_faults s0 = [] \<longrightarrow> o_faults s = []) \<and>
     trail (turn_view sp tgt (o_next s0) (o_fs s0) f p) s0 s \<and>
     landed sp tgt (o_next s0) (o_fs s0) f p (o_fs s)"

lemma arrived_same: "arrived s0 sp tgt f p s \<Longrightarrow> same_fs s s' \<Longrightarrow> arrived s0 sp tgt f p s'"
  using fs_wf_same trail_same by (auto simp: arrived_def same_fs_def)

lemma arrived_sync:
  assumes "arrived s0 sp tgt f p s" "Dir_Sync s d = (r, s')"
  shows "arrived s0 sp tgt f p s' \<and> (r = None \<and> child d tgt \<longrightarrow> file_at (v_disk (o_fs s')) tgt = Some f) \<and>
    (o_faults s0 = [] \<longrightarrow> r = None)"
  using assms(2)
proof (cases rule: Dir_Sync_cases)
  case synced
  have wf: "fs_wf s'" using assms fs_wf_Dir_Sync by (auto simp: arrived_def)
  have ld: "landed sp tgt (o_next s0) (o_fs s0) f p (sync_entries d (o_fs s))"
    using assms(1) landed_sync by (simp add: arrived_def)
  then have "trail (turn_view sp tgt (o_next s0) (o_fs s0) f p) s0 s'"
    using assms(1) trail_step [OF _ synced(2)] by (simp add: arrived_def turn_view_def)
  moreover have "file_at (v_ents (o_fs s)) tgt = Some f"
    using assms(1) by (simp add: arrived_def landed_def)
  ultimately show ?thesis
    using assms(1) wf ld synced by (auto simp: arrived_def fs_step_def file_at_sync)
next
  case (failed e)
  have "arrived s0 sp tgt f p s'" by (rule arrived_same [OF assms(1) failed(2)])
  moreover have "o_faults s0 \<noteq> []" using assms(1) failed(3) by (auto simp: arrived_def)
  ultimately show ?thesis using failed(1) by simp
qed

lemma staged_Rename:
  assumes st: "staged s0 sp f s" and ne: "sp \<noteq> tgt" "tgt \<noteq> []" and call: "Rename s sp tgt = (r, s')"
    and data: "i_data (inode_of s f) = p" "i_synced (inode_of s f) = p"
  shows "if r = None then arrived s0 sp tgt f p s' \<and> is_dir s' (butlast tgt) else staged s0 sp f s'"
  using call
proof (cases rule: Rename_cases)
  case (renamed i)
  have i: "i = f" and u: "untouched {sp} (o_next s0) (o_fs s0) (o_fs s)"
    using st renamed(2) by (auto simp: staged_def clean_def intro: trail_view)
  have ld: "landed sp tgt (o_next s0) (o_fs s0) f p (o_fs s')"
    using landed_rename [OF u ne(1), of f p] data renamed(5) i by (simp add: fs_step_def inode_of_def)
  have "trail (turn_view sp tgt (o_next s0) (o_fs s0) f p) s0 s"
    using st by (auto simp: staged_def clean_def turn_view_def intro: trail_mono)
  then have "trail (turn_view sp tgt (o_next s0) (o_fs s0) f p) s0 s'"
    by (rule trail_step [OF _ renamed(5)]) (use ld renamed(5) in \<open>simp add: turn_view_def fs_step_def\<close>)
  moreover have "fs_wf s'" using st call ne fs_wf_Rename by (auto simp: staged_def clean_def)
  moreover have "is_dir s' (butlast tgt)"
    using renamed(2-5) ne by (auto simp: fs_step_def is_dir_def ent_def)
  ultimately show ?thesis
    using renamed(1,5) ld st by (auto simp: arrived_def fs_step_def staged_def clean_def)
qed (use st staged_same in auto)

text \<open>
  The barrier as a whole. Either it fails before the rename, and then at most the staging file
  is left, or the file has landed; success means that directory and file are synced and the ACK
  was accepted by the connection.
\<close>

lemma CommitBarrier_cases:
  assumes st: "staged s0 sp f s" and data: "file_data f s = p" and ne: "sp \<noteq> dir @ [name]"
    and call: "CommitBarrier wr s f sp dir name c = (r, s', c')"
  obtains (kept) e where "r = Some e" "c' = c" "clean {sp} s0 s'" "o_faults s0 = [] \<Longrightarrow> ent s' sp = None"
  | (unsynced) e where "r = Some e" "c' = c" "arrived s0 sp (dir @ [name]) f p s'" "o_faults s0 \<noteq> []"
  | (committed) a where "arrived s0 sp (dir @ [name]) f p s'"
      "file_at (v_disk (o_fs s')) (dir @ [name]) = Some f" "WriteAck wr c = (a, c')" "r = None \<longleftrightarrow> a = None"
proof -
  note quiet = st [unfolded staged_def clean_def]
  obtain r1 s1 where 1: "File_Sync s f = (r1, s1)" by fastforce
  obtain r2 s2 where 2: "File_Close s1 = (r2, s2)" by fastforce
  obtain r3 s3 where 3: "Rename s2 sp (dir @ [name]) = (r3, s3)" by fastforce
  have st1: "staged s0 sp f s1" and data1: "r1 = None \<Longrightarrow> i_data (inode_of s1 f) = p \<and> i_synced (inode_of s1 f) = p"
    using 1 st clean_File_Sync [of "{sp}" s0 s f r1 s1] data
    by (auto simp: staged_def ent_def fs_step_def same_fs_def file_data_def inode_of_def elim!: File_Sync_cases)
  have st2: "staged s0 sp f s2" and same2: "same_fs s1 s2"
    using 2 st1 staged_same by (auto elim!: File_Close_cases)
  have kept': thesis if "r = Some e" "c' = c" "s' = snd (Remove x sp)" "staged s0 sp f x" for e x
    using that kept staged_Remove [OF that(4), of "fst (Remove x sp)" s'] by simp
  show thesis
  proof (cases "r1 = None \<and> r2 = None")
    case False
    with call 1 2 kept' [OF _ _ _ st2] show thesis
      by (auto simp: CommitBarrier_def Let_def split: option.splits)
  next
    case True
    with data1 same2 have "i_data (inode_of s2 f) = p" "i_synced (inode_of s2 f) = p"
      by (auto dest: same_fs_ent)
    note land = staged_Rename [OF st2 ne _ 3 this]
    show thesis
    proof (cases r3)
      case (Some e)
      with True call 1 2 3 land kept' [of _ s3] show thesis
        by (auto simp: CommitBarrier_def Let_def)
    next
      case None
      with land have ar: "arrived s0 sp (dir @ [name]) f p s3" "is_dir s3 dir" by auto
      obtain r4 s4 where 4: "Open s3 dir = (r4, s4)" by fastforce
      have ar4: "arrived s0 sp (dir @ [name]) f p s4"
        using 4 by (rule Open_cases) (auto intro: arrived_same [OF ar(1)])
      obtain r5 s5 where 5: "Dir_Sync s4 dir = (r5, s5)" by fastforce
      note ar5 = arrived_sync [OF ar4 5]
      obtain r6 s6 where 6: "File_Close s5 = (r6, s6)" by fastforce
      then have same6: "same_fs s5 s6" by (auto elim: File_Close_cases)
      with ar5 arrived_same have ar6: "arrived s0 sp (dir @ [name]) f p s6" by blast
      show thesis
      proof (cases r4)
        case (Inl e)
        have "o_faults s3 \<noteq> []"
          using 4 Inl ar(2) by (cases rule: Open_cases) auto
        then have "o_faults s0 \<noteq> []" using ar(1) by (auto simp: arrived_def)
        with True None call 1 2 3 4 Inl ar4 show thesis
          by (intro unsynced [of "the r"]) (auto simp: CommitBarrier_def Let_def)
      next
        case (Inr en)
        show thesis
        proof (cases r5)
          case (Some e)
          with ar5 have "o_faults s0 \<noteq> []" by auto
          with True None call 1 2 3 4 5 6 Inr Some ar6 show thesis
            by (intro unsynced [of "the r"]) (auto simp: CommitBarrier_def Let_def)
        next
          case r5: None
          obtain a c1 where a: "WriteAck wr c = (a, c1)" by fastforce
          have "file_at (v_disk (o_fs s6)) (dir @ [name]) = Some f"
            using ar5 same6 r5 by (simp add: child_def same_fs_def)
          with True None call 1 2 3 4 5 6 Inr r5 a ar6 show thesis
            by (intro committed [of a]) (auto simp: CommitBarrier_def Let_def split: option.splits)
        qed
      qed
    qed
  qed
qed

section \<open>One turn of the loop\<close>

interpretation recv: go_fed_pipe "DeadlineConn_Read \<tau>" "conn_stream \<tau>" conn_rank conn_frame pending
    "File_Write i" "file_data i" file_room for \<tau> i
  by unfold_locales (rule conn_Read_pending)

text \<open>What reaches the peer: an ACK is one byte, a NACK frame may be cut short.\<close>

lemma nack_close_sent:
  assumes "wr = conn_Write \<or> wr = DeadlineConn_Write \<tau>" "nack_close wr s c t msg = (go, s', c', t')"
  shows "\<not> go \<and> s' = s \<and> (\<exists>k. c_sent c' = c_sent c @ take k (nack_frame msg)) \<and>
    t' = map_option (Tracker_RecordError (c_clock c')) t"
proof -
  obtain n e c1 where w: "wr c (nack_frame msg) = (n, e, c1)" by (metis prod_cases3)
  with assms(1) have "c_sent c1 = c_sent c @ take n (nack_frame msg)"
    using bare_w.write_ok bare_w.write_err timed_w.write_ok timed_w.write_err
    by (cases e) (metis order_refl take_all)+
  with assms(2) w show ?thesis by (auto simp: nack_close_def WriteNack_def)
qed

lemma WriteAck_sent:
  assumes "WriteAck (DeadlineConn_Write \<tau>) c = (a, c')"
  shows "c_sent c' = c_sent c @ (if a = None then [AckByte] else [])"
  using assms by (auto simp: WriteAck_def DeadlineConn_Write_def conn_Write_def SetWriteDeadline_def Let_def
      split: if_splits option.splits prod.splits)

lemma WriteAck_pending: "WriteAck (DeadlineConn_Write \<tau>) c = (a, c') \<Longrightarrow> pending c' = pending c"
  by (auto simp: WriteAck_def DeadlineConn_Write_def conn_Write_def SetWriteDeadline_def pending_def Let_def
      split: if_splits option.splits prod.splits)

lemma staging_not_target:
  assumes "staging_path dir sp" "ValidateFilename name = None"
  shows "sp \<noteq> dir @ [name]" "prefix (stagingDir dir) sp" "\<not> prefix (stagingDir dir) (dir @ [name])"
  using assms valid_name_first [OF assms(2)] name_char_no_sep(3)
  by (auto simp: staging_path_def stagingDir_def prefix_def)

text \<open>
  The abstract specification of a turn: the request is refused without a trace, or it is dropped
  after staging, or the file has landed but could not be acknowledged, or it has landed durably
  and the ACK is sent.
\<close>

inductive turn :: "server \<Rightarrow> os \<Rightarrow> conn \<Rightarrow> tracker option \<Rightarrow> bool \<Rightarrow> os \<Rightarrow> conn \<Rightarrow> tracker option \<Rightarrow> bool"
  for sv s c t
where
  refused: "clean {} s s' \<Longrightarrow> c_sent c' = c_sent c @ take k (nack_frame msg) \<Longrightarrow> turn sv s c t False s' c' t'"
| dropped: "staging_path (s_incomingDir sv) sp \<Longrightarrow> file_at (v_ents (o_fs s)) sp = None \<Longrightarrow>
    clean {sp} s s' \<Longrightarrow> (o_faults s = [] \<Longrightarrow> ent s' sp = None) \<Longrightarrow>
    c_sent c' = c_sent c @ take k (nack_frame msg) \<Longrightarrow> turn sv s c t False s' c' t'"
| landed: "staging_path (s_incomingDir sv) sp \<Longrightarrow> file_at (v_ents (o_fs s)) sp = None \<Longrightarrow> o_next s \<le> f \<Longrightarrow>
    ValidateFilename name = None \<Longrightarrow> pending c = frame_bytes name p @ rest \<Longrightarrow>
    arrived s sp (s_incomingDir sv @ [name]) f p s' \<Longrightarrow>
    c_sent c' = c_sent c @ take k (nack_frame msg) \<Longrightarrow> turn sv s c t False s' c' t'"
| acked: "staging_path (s_incomingDir sv) sp \<Longrightarrow> file_at (v_ents (o_fs s)) sp = None \<Longrightarrow> o_next s \<le> f \<Longrightarrow>
    ValidateFilename name = None \<Longrightarrow> size_allowed (s_maxSize sv) (of_nat (length p)) \<Longrightarrow> length p < 2 ^ 63 \<Longrightarrow>
    pending c = frame_bytes name p @ pending c' \<Longrightarrow>
    arrived s sp (s_incomingDir sv @ [name]) f p s' \<Longrightarrow>
    file_at (v_disk (o_fs s')) (s_incomingDir sv @ [name]) = Some f \<Longrightarrow>
    c_sent c' = c_sent c @ [AckByte] \<Longrightarrow>
    t' = map_option (Tracker_RecordSuccess (c_clock c') (of_nat (length p))) t \<Longrightarrow> turn sv s c t True s' c' t'"

inductive_cases turn_True [consumes 1, case_names acked]: "turn sv s c t True s' c' t'"

lemma turn_commit:
  assumes stg: "staging_path (s_incomingDir sv) sp" "file_at (v_ents (o_fs s)) sp = None"
    and st: "staged s sp f s2" and data: "file_data f s2 = p" "length p < 2 ^ 63"
    and name: "ValidateFilename name = None" "size_allowed (s_maxSize sv) (of_nat (length p))"
    and pend: "pending c = frame_bytes name p @ pending c2" and sent: "c_sent c2 = c_sent c"
    and call: "CommitBarrier (DeadlineConn_Write \<tau>) s2 f sp (s_incomingDir sv) name c2 = (r, s3, c3)"
    and res: "(if r = None then (True, s3, c3, map_option (Tracker_RecordSuccess (c_clock c3) (of_nat (length p))) t)
      else nack_close (DeadlineConn_Write \<tau>) s3 c3 t msg) = (go, s', c', t')"
  shows "turn sv s c t go s' c' t'"
proof -
  have ne: "sp \<noteq> s_incomingDir sv @ [name]" by (rule staging_not_target(1) [OF stg(1) name(1)])
  have f: "o_next s \<le> f" using st by (simp add: staged_def)
  have fail: "\<not> go \<and> s' = s3 \<and> (\<exists>k. c_sent c' = c_sent c3 @ take k (nack_frame msg))" if "r \<noteq> None"
    using res that nack_close_sent [of "DeadlineConn_Write \<tau>" \<tau> s3 c3 t msg go s' c' t'] by auto
  from st data(1) ne call show ?thesis
  proof (cases rule: CommitBarrier_cases)
    case (kept e)
    with fail sent dropped [OF stg] show ?thesis by auto
  next
    case (unsynced e)
    with fail sent landed [OF stg f name(1) pend] show ?thesis by auto
  next
    case (committed a)
    note w = WriteAck_sent [OF committed(3)]
    show ?thesis
    proof (cases a)
      case (Some e)
      with committed w fail sent landed [OF stg f name(1) pend] show ?thesis by auto
    next
      case None
      with committed(4) res have fin: "go" "s' = s3" "c' = c3"
        "t' = map_option (Tracker_RecordSuccess (c_clock c3) (of_nat (length p))) t" by auto
      have "pending c3 = pending c2" using committed(3) by (rule WriteAck_pending)
      with fin None committed(1,2) w sent pend show ?thesis
        using acked [OF stg f name data(2)] by auto
    qed
  qed
qed

lemma turn_receive:
  assumes wf: "fs_wf s"
    and stg: "CreateStagedFile s (s_incomingDir sv) = (Inr (f, sp), s1)"
    and name: "ValidateFilename name = None" "size_allowed (s_maxSize sv) sz"
    and pend: "pending c = header_bytes name sz @ pending c1" and sent: "c_sent c1 = c_sent c"
    and rcv: "ReceiveStream file_copy_buf (File_Write f) (DeadlineConn_Read \<tau>) s1 c1 sz = Some (r, c2, s2)"
    and res: "(case r of
        Some e \<Rightarrow> nack_close (DeadlineConn_Write \<tau>) (snd (Remove (snd (File_Close s2)) sp)) c2 t (msg_s e)
      | None \<Rightarrow>
        (case CommitBarrier (DeadlineConn_Write \<tau>) s2 f sp (s_incomingDir sv) name c2 of
          (Some e, s3, c3) \<Rightarrow> nack_close (DeadlineConn_Write \<tau>) s3 c3 t (msg_c e)
        | (None, s3, c3) \<Rightarrow> (True, s3, c3, map_option (Tracker_RecordSuccess (c_clock c3) sz) t)))
      = (go, s', c', t')"
  shows "turn sv s c t go s' c' t'"
proof -
  note st1 = CreateStagedFile_ok [OF wf stg]
  have buf: "0 < file_copy_buf" by (simp add: file_copy_buf_def)
  have sent2: "c_sent c2 = c_sent c"
    using recv.ReceiveStream_returns [OF buf, of f \<tau> s1 c1 sz] rcv sent by (auto simp: conn_frame_def)
  have st2: "staged s sp f s2"
    by (rule ReceiveStream_invariant [where Q = "\<lambda>_. staged s sp f", OF rcv])
       (use st1 in \<open>auto intro: staged_File_Write\<close>)
  show ?thesis
  proof (cases r)
    case (Some e)
    have "staged s sp f (snd (File_Close s2))"
      using staged_same [OF st2] by (metis File_Close_cases prod.collapse)
    note rm = staged_Remove [OF this surjective_pairing]
    from nack_close_sent [OF disjI2 [OF refl] res [unfolded Some option.case]] sent2 rm st1 show ?thesis
      using dropped [of sv sp s s' c' c _ "msg_s e" t t'] by auto
  next
    case None
    obtain p where p: "pending c1 = p @ sha256 p @ pending c2" "length p = unat sz" "unat sz < 2 ^ 63"
        "file_data f s2 = p"
      by (rule recv.ReceiveStream_consumes [OF buf rcv [unfolded None]]) (use st1 in auto)
    then have sz: "sz = of_nat (length p)" by simp
    obtain r4 s3 c3 where 4: "CommitBarrier (DeadlineConn_Write \<tau>) s2 f sp (s_incomingDir sv) name c2 = (r4, s3, c3)"
      by (metis prod_cases3)
    show ?thesis
      by (rule turn_commit [OF _ _ st2 p(4) _ name(1) _ _ sent2 4, where msg = "msg_c (the r4)"])
         (use st1 p name pend sz res None 4 in \<open>auto simp: frame_bytes_def split: option.splits\<close>)
  qed
qed

theorem handle_request_turn:
  assumes wf: "fs_wf s" and call: "handle_request sv s c t = Some (go, s', c', t')"
  shows "turn sv s c t go s' c' t'"
proof (cases "expired (s_stop sv) (c_clock c)")
  case True
  with call wf show ?thesis
    by (auto simp: handle_request_def intro: refused [where k = 0] clean_refl)
next
  case run: False
  define c0 where "c0 = SetReadDeadline c (c_clock c + ReceiverIdleTimeout)"
  obtain name sz r1 c1 where 1: "ReadRequestHeader conn_Read c0 (s_maxSize sv) = Some (name, sz, r1, c1)"
      "conn_frame c1 = conn_frame c0"
    using bare.ReadRequestHeader_returns by blast
  then have sent1: "c_sent c1 = c_sent c" by (simp add: conn_frame_def c0_def SetReadDeadline_def)
  show ?thesis
  proof (cases r1)
    case (Some e)
    with run call 1 have "s' = s \<and> c' = c1 \<and> \<not> go \<or> nack_close conn_Write s c1 t (Error e) = (go, s', c', t')"
      by (auto simp: handle_request_def c0_def Let_def split: if_splits)
    with nack_close_sent [of conn_Write _ s c1 t "Error e" go s' c' t'] sent1 have
      "\<not> go \<and> s' = s \<and> (\<exists>k. c_sent c' = c_sent c @ take k (nack_frame (Error e)))"
      by (auto intro: exI [of _ 0])
    then show ?thesis using refused [OF clean_refl [OF wf]] by auto
  next
    case None
    note hdr = bare.ReadRequestHeader_sound [OF 1(1) [unfolded None]]
      bare_fed.ReadRequestHeader_consumes [OF 1(1) [unfolded None]]
    obtain r2 s1 where 2: "CreateStagedFile s (s_incomingDir sv) = (r2, s1)" by fastforce
    show ?thesis
    proof (cases r2)
      case (Inl e)
      with run call 1 None 2 obtain msg where
        "nack_close (DeadlineConn_Write ReadWriteTimeout) s1 c1 t msg = (go, s', c', t')"
        by (auto simp: handle_request_def c0_def)
      from nack_close_sent [OF disjI2 [OF refl] this] sent1 show ?thesis
        using refused [OF CreateStagedFile_err [OF wf 2 [unfolded Inl]]] by auto
    next
      case (Inr fsp)
      then obtain f sp where fsp: "r2 = Inr (f, sp)" by (cases fsp) auto
      obtain r3 c2 s2 where 3: "ReceiveStream file_copy_buf (File_Write f) (DeadlineConn_Read ReadWriteTimeout)
          s1 c1 sz = Some (r3, c2, s2)"
        using recv.ReceiveStream_returns [of file_copy_buf f ReadWriteTimeout s1 c1 sz]
        by (auto simp: file_copy_buf_def)
      show ?thesis
        by (rule turn_receive [OF wf 2 [unfolded fsp] _ _ _ sent1 3,
              where msg_s = "\<lambda>e. ''stream failure: '' @ Error e" and msg_c = "\<lambda>e. ''commit barrier failure: '' @ Error e"])
           (use hdr run call 1 None 2 fsp 3 in
            \<open>auto simp: handle_request_def c0_def Let_def split: option.splits prod.splits\<close>)
    qed
  qed
qed

section \<open>What a turn guarantees\<close>

lemma turn_wf: "turn sv s c t go s' c' t' \<Longrightarrow> fs_wf s'"
  by (erule turn.cases) (auto simp: clean_def arrived_def)

lemma same_files:
  assumes "fs_wf s" "file_at (v_ents (o_fs s')) q = file_at (v_ents (o_fs s)) q"
    and "\<forall>i<o_next s. v_inodes (o_fs s') i = v_inodes (o_fs s) i"
  shows "content s' q = content s q"
  using assms by (cases "file_at (v_ents (o_fs s)) q")
    (auto simp: file_at_content inode_of_def dest: file_at_less)

lemma clean_content: "clean A s s' \<Longrightarrow> fs_wf s \<Longrightarrow> q \<notin> A \<Longrightarrow> content s' q = content s q"
  by (rule same_files) (auto simp: clean_def untouched_def dest: trail_view)

lemma arrived_content:
  assumes "arrived s sp tgt f p s'" "fs_wf s"
  shows "content s' q = (if q = tgt then Some p else if q = sp then None else content s q)"
  using assms same_files [OF assms(2), of s' q]
  by (auto simp: arrived_def landed_def) (auto simp: file_at_content inode_of_def)

text \<open>What a crash can expose in a view of the turn.\<close>

lemma survives_old:
  assumes wf: "fs_wf s" and i: "\<forall>i<o_next s. v_inodes v i = v_inodes (o_fs s) i"
    and q: "file_at (v_disk v) q \<in> {file_at (v_disk (o_fs s)) q, file_at (v_ents (o_fs s)) q}"
      "file_at (v_ents v) q = file_at (v_ents (o_fs s)) q"
    and x: "survives v q x"
  shows "survives (o_fs s) q x"
proof -
  from x obtain j where j: "file_at (v_disk v) q = Some j \<or> file_at (v_ents v) q = Some j"
    "i_data (v_inodes v j) = i_synced (v_inodes v j) \<longrightarrow> x = i_data (v_inodes v j)"
    by (auto simp: survives_file_at)
  have "file_at (v_disk (o_fs s)) q = Some j \<or> file_at (v_ents (o_fs s)) q = Some j"
    using j(1) q by auto
  moreover from this have "j < o_next s" using wf file_at_less file_at_disk_less by blast
  ultimately show ?thesis using j(2) i by (auto simp: survives_file_at)
qed

lemma survives_turn_view:
  assumes wf: "fs_wf s" and v: "turn_view sp tgt (o_next s) (o_fs s) f p v" and q: "q \<noteq> sp"
    and x: "survives v q x"
  shows "survives (o_fs s) q x \<or> q = tgt \<and> x = p"
proof -
  from v consider "untouched {sp} (o_next s) (o_fs s) v" | "landed sp tgt (o_next s) (o_fs s) f p v"
    by (auto simp: turn_view_def)
  then show ?thesis
  proof cases
    case 1
    with q x survives_old [OF wf] show ?thesis by (auto simp: untouched_def)
  next
    case 2
    have i: "\<forall>i<o_next s. v_inodes v i = v_inodes (o_fs s) i" using 2 by (simp add: landed_def)
    show ?thesis
    proof (cases "q = tgt")
      case False
      with 2 q have "file_at (v_ents v) q = file_at (v_ents (o_fs s)) q"
        "file_at (v_disk v) q = file_at (v_disk (o_fs s)) q \<or> file_at (v_disk v) q = file_at (v_ents v) q"
        unfolding landed_def by blast+
      with x survives_old [OF wf i] show ?thesis by simp
    next
      case True
      from x obtain j where j: "file_at (v_disk v) q = Some j \<or> file_at (v_ents v) q = Some j"
        "i_data (v_inodes v j) = i_synced (v_inodes v j) \<longrightarrow> x = i_data (v_inodes v j)"
        by (auto simp: survives_file_at)
      then consider "j = f" | "file_at (v_disk (o_fs s)) q = Some j"
        using 2 True unfolding landed_def by (metis option.inject)
      then show ?thesis
      proof cases
        case 1
        with j(2) 2 True show ?thesis by (auto simp: landed_def)
      next
        case disk: 2
        with file_at_disk_less [OF wf disk] j(2) i show ?thesis by (auto simp: survives_file_at)
      qed
    qed
  qed
qed

lemma acked_durable:
  assumes wf: "fs_wf s" and call: "handle_request sv s c t = Some (True, s', c', t')"
  obtains name p where "ValidateFilename name = None" "size_allowed (s_maxSize sv) (of_nat (length p))"
    "length p < 2 ^ 63" "pending c = frame_bytes name p @ pending c'"
    "content s' (s_incomingDir sv @ [name]) = Some p"
    "ent s' (s_incomingDir sv @ [name]) = map_of (v_disk (o_fs s')) (s_incomingDir sv @ [name])"
    "\<And>x. survives (o_fs s') (s_incomingDir sv @ [name]) x = (x = p)"
    "c_sent c' = c_sent c @ [AckByte]"
    "o_fs s' \<in> set (drop (length (o_hist s)) (o_hist s'))"
  using handle_request_turn [OF assms]
proof (cases rule: turn_True)
  case (acked sp f name p)
  let ?tgt = "s_incomingDir sv @ [name]"
  have ld: "file_at (v_ents (o_fs s')) ?tgt = Some f" "i_data (v_inodes (o_fs s') f) = p"
    "i_synced (v_inodes (o_fs s') f) = p"
    and tr: "trail (turn_view sp ?tgt (o_next s) (o_fs s) f p) s s'"
    using acked(9) by (auto simp: arrived_def landed_def)
  have "ent s' ?tgt = map_of (v_disk (o_fs s')) ?tgt"
    using ld(1) acked(10) by (auto simp: ent_def file_at_def split: option.splits entry.splits)
  moreover have "survives (o_fs s') ?tgt x = (x = p)" for x
    using ld acked(10) by (auto simp: survives_file_at)
  moreover have "content s' ?tgt = Some p" using arrived_content [OF acked(9) wf] by simp
  moreover have "o_fs s' \<noteq> o_fs s" using ld(1) acked(4) file_at_less [OF wf] by force
  then have "o_fs s' \<in> set (drop (length (o_hist s)) (o_hist s'))" using trail_last [OF tr] by simp
  ultimately show thesis using acked by (intro that [of name p]) simp_all
qed

section \<open>Properties of the connection handler\<close>

text \<open>
  C2: when a turn ends with an ACK, the bytes consumed from the connection are one request frame
  with a valid name, an admissible size and a payload that matches its SHA-256 trailer; exactly
  that payload is the content of the target file; entry and content are on stable storage, so
  after a crash this content and no other is found; and the ACK is all that was sent.
\<close>

theorem acked_file_is_durable:
  assumes "fs_wf s" "handle_request sv s c t = Some (True, s', c', t')"
  shows "\<exists>name p. let tgt = s_incomingDir sv @ [name] in
    ValidateFilename name = None \<and> size_allowed (s_maxSize sv) (of_nat (length p)) \<and>
    pending c = header_bytes name (of_nat (length p)) @ p @ sha256 p @ pending c' \<and>
    content s' tgt = Some p \<and> ent s' tgt = map_of (v_disk (o_fs s')) tgt \<and>
    (\<forall>x. survives (o_fs s') tgt x = (x = p)) \<and> c_sent c' = c_sent c @ [AckByte]"
  using assms by (rule acked_durable) (auto simp: frame_bytes_def Let_def)

text \<open>
  C6: whatever the peer sends and whatever the operating system answers, a turn changes no file
  outside the staging directory, except one whose name is a valid file name directly in the
  incoming directory, and that one then holds a payload that arrived complete with its digest.
\<close>

theorem only_verified_files_appear:
  assumes "fs_wf s" "handle_request sv s c t = Some (go, s', c', t')"
    and "\<not> prefix (stagingDir (s_incomingDir sv)) q" "content s' q \<noteq> content s q"
  shows "\<exists>name p rest. q = s_incomingDir sv @ [name] \<and> ValidateFilename name = None \<and>
    content s' q = Some p \<and>
    pending c = header_bytes name (of_nat (length p)) @ p @ sha256 p @ rest"
  using handle_request_turn [OF assms(1,2)]
proof (cases rule: turn.cases)
  case refused
  with assms clean_content show ?thesis by blast
next
  case (dropped sp)
  have "q \<noteq> sp" using assms(3) dropped(2) by (auto simp: staging_path_def)
  with dropped assms clean_content show ?thesis by blast
next
  case (landed sp f name p)
  have "q \<noteq> sp" using assms(3) landed(2) by (auto simp: staging_path_def)
  with landed assms(4) arrived_content [OF landed(7) assms(1), of q] show ?thesis
    by (auto simp: frame_bytes_def split: if_splits)
next
  case (acked sp f name p)
  have "q \<noteq> sp" using assms(3) acked(2) by (auto simp: staging_path_def)
  with acked assms(4) arrived_content [OF acked(9) assms(1), of q] show ?thesis
    by (auto simp: frame_bytes_def split: if_splits)
qed

text \<open>
  C5: a crash at any moment of a turn is atomic for every file outside the staging directory:
  what the next boot can find there could be found before the turn, or it is the complete
  verified payload at its target. A partly written file is never exposed.
\<close>

theorem crash_atomic:
  assumes "fs_wf s" "handle_request sv s c t = Some (go, s', c', t')"
    and "\<not> prefix (stagingDir (s_incomingDir sv)) q"
    and "v \<in> set (drop (length (o_hist s)) (o_hist s'))" "survives v q x"
  shows "survives (o_fs s) q x \<or> (\<exists>name rest. q = s_incomingDir sv @ [name] \<and>
    ValidateFilename name = None \<and> pending c = header_bytes name (of_nat (length x)) @ x @ sha256 x @ rest)"
  using handle_request_turn [OF assms(1,2)]
proof (cases rule: turn.cases)
  case refused
  then have "untouched {} (o_next s) (o_fs s) v" using assms(4) trail_hist by (auto simp: clean_def)
  with assms(5) survives_old [OF assms(1)] show ?thesis by (auto simp: untouched_def)
next
  case (dropped sp)
  have "q \<noteq> sp" using assms(3) dropped(2) by (auto simp: staging_path_def)
  moreover have "untouched {sp} (o_next s) (o_fs s) v"
    using assms(4) dropped(4) trail_hist by (auto simp: clean_def)
  ultimately show ?thesis using assms(5) survives_old [OF assms(1)] by (auto simp: untouched_def)
next
  case (landed sp f name p)
  have "q \<noteq> sp" using assms(3) landed(2) by (auto simp: staging_path_def)
  moreover have "turn_view sp (s_incomingDir sv @ [name]) (o_next s) (o_fs s) f p v"
    using landed(7) assms(4) trail_hist by (auto simp: arrived_def)
  ultimately show ?thesis
    using survives_turn_view [OF assms(1) _ _ assms(5)] landed(5-7) by (force simp: frame_bytes_def)
next
  case (acked sp f name p)
  have "q \<noteq> sp" using assms(3) acked(2) by (auto simp: staging_path_def)
  moreover have "turn_view sp (s_incomingDir sv @ [name]) (o_next s) (o_fs s) f p v"
    using acked(9) assms(4) trail_hist by (auto simp: arrived_def)
  ultimately show ?thesis
    using survives_turn_view [OF assms(1) _ _ assms(5)] acked(5-9) by (force simp: frame_bytes_def)
qed

text \<open>
  C22: a turn leaves no garbage: as long as no system call fails, every path in the staging
  directory has the content it had before, whether the file was committed, refused or damaged.
\<close>

theorem staging_left_clean:
  assumes "fs_wf s" "handle_request sv s c t = Some (go, s', c', t')" "o_faults s = []"
    and "prefix (stagingDir (s_incomingDir sv)) q"
  shows "content s' q = content s q"
  using handle_request_turn [OF assms(1,2)]
proof (cases rule: turn.cases)
  case refused
  with assms(1) clean_content show ?thesis by blast
next
  case (dropped sp)
  have "content s' sp = None" "content s sp = None"
    using dropped(3,5) assms(3) by (auto simp: content_def ent_def file_at_def split: option.splits entry.splits)
  with dropped(4) assms(1) clean_content [of "{sp}" s s' q] show ?thesis by (cases "q = sp") auto
next
  case (landed sp f name p)
  have "q \<noteq> s_incomingDir sv @ [name]" "content s sp = None"
    using staging_not_target(3) landed assms(4) by (auto simp: file_at_content)
  with arrived_content [OF landed(7) assms(1), of q] show ?thesis by auto
next
  case (acked sp f name p)
  have "q \<noteq> s_incomingDir sv @ [name]" "content s sp = None"
    using staging_not_target(3) acked assms(4) by (auto simp: file_at_content)
  with arrived_content [OF acked(9) assms(1), of q] show ?thesis by auto
qed

text \<open>
  C23: a turn answers with exactly one ACK byte when it commits, and otherwise with at most one
  NACK frame, of which a failing connection may cut off the end; it never sends anything else.
\<close>

theorem one_response_per_turn:
  assumes "fs_wf s" "handle_request sv s c t = Some (go, s', c', t')"
  shows "\<exists>k msg. c_sent c' = c_sent c @ (if go then [AckByte] else take k (nack_frame msg))"
  using handle_request_turn [OF assms] by (cases rule: turn.cases) auto

end
