(* ===== verification/Receiver_Session.thy ===== *)
theory Receiver_Session
  imports Receiver_Laws
begin

text \<open>
  Whole connections: the handler returns for every peer, and a sender whose frames are valid and
  arrive gets every file committed and acknowledged.
\<close>

section \<open>Connections whose bytes have arrived\<close>

definition buffered :: "conn \<Rightarrow> bool" where
  "buffered c \<longleftrightarrow> list_all (\<lambda>(a, _). a \<le> c_clock c) (c_in c) \<and> fst (c_end c) \<le> c_clock c"

lemma deliver_buffered:
  assumes "list_all (\<lambda>(a, _). a \<le> now) arr" "fst en \<le> now" "\<tau> > 0 \<or> \<not> expired dl now"
  shows "deliver \<tau> dl now arr en addr = (concat (map snd arr), snd en)"
  using assms
proof (induction arr)
  case Nil
  then show ?case by (auto simp: expired_def max_def)
next
  case (Cons x arr)
  obtain a ch where x: "x = (a, ch)" by fastforce
  from Cons.prems x have a: "max now a = now" by (simp add: max_def)
  have e: "\<not> expired (if \<tau> > 0 then Some (now + \<tau>) else dl) now"
    using Cons.prems by (auto simp: expired_def)
  have "deliver \<tau> dl now arr en addr = (concat (map snd arr), snd en)"
    using Cons by simp
  then show ?case
    using e by (simp only: x deliver.simps a if_False list.map concat.simps fst_conv snd_conv)
qed

lemma conn_stream_buffered:
  assumes "buffered c" "\<tau> > 0 \<or> \<not> expired (c_rdeadline c) (c_clock c)"
  shows "conn_stream \<tau> c = (pending c, snd (c_end c))"
  using assms deliver_buffered by (simp add: conn_stream_def buffered_def pending_def)

lemma buffered_read:
  assumes "buffered c \<and> c_clock c = T" "DeadlineConn_Read \<tau> c n = (d, r, c')"
  shows "buffered c' \<and> c_clock c' = T"
proof (cases "c_in c")
  case Nil
  with assms show ?thesis
    by (auto simp: DeadlineConn_Read_def conn_Read_def buffered_def SetReadDeadline_def Let_def expired_def max_def
        split: if_splits option.splits)
next
  case (Cons x rest)
  with assms show ?thesis
    by (cases x) (auto simp: DeadlineConn_Read_def conn_Read_def buffered_def SetReadDeadline_def Let_def expired_def max_def
        split: if_splits option.splits)
qed

section \<open>A receiver that is ready\<close>

text \<open>No call fails, the staging directory can be made and holds no old staging file.\<close>

definition ready :: "path \<Rightarrow> os \<Rightarrow> bool" where
  "ready dir s \<longleftrightarrow> fs_wf s \<and> o_faults s = [] \<and> o_space s = None \<and>
     list_all (\<lambda>q. ent s q = None \<or> ent s q = Some Dir) (ancestors (stagingDir dir)) \<and>
     list_all (\<lambda>(q, _). \<not> (child (stagingDir dir) q \<and> HasSuffix (last q) ''.tmp'')) (v_ents (o_fs s))"

lemma quiet_MkdirAll:
  assumes "o_faults s = []" "list_all (\<lambda>q. ent s q = None \<or> ent s q = Some Dir) (ancestors p)"
  obtains s' where "MkdirAll s p = (None, s')" "o_faults s' = []" "o_space s' = o_space s" "o_next s' = o_next s"
    "v_ents (o_fs s') = v_ents (o_fs s) @ map (\<lambda>q. (q, Dir)) (filter (\<lambda>q. ent s q = None) (ancestors p))"
proof -
  have "\<not> list_ex (\<lambda>q. ent s q \<noteq> None \<and> ent s q \<noteq> Some Dir) (ancestors p)"
    using assms(2) by (auto simp: list_ex_iff list_all_iff)
  then show thesis
    using assms(1) that by (auto simp: MkdirAll_def fault_quiet Let_def split: if_splits)
qed

lemma staging_child: "staging_path dir sp \<Longrightarrow> child (stagingDir dir) sp \<and> HasSuffix (last sp) ''.tmp''"
  by (auto simp: staging_path_def child_def HasSuffix_iff)

lemma staging_not_ancestor: "staging_path dir sp \<Longrightarrow> sp \<notin> set (ancestors (stagingDir dir))"
  by (auto simp: staging_path_def ancestors_def dest: arg_cong [of _ _ length])

lemma quiet_CreateStagedFile:
  assumes rdy: "ready dir s"
  obtains sp s1 where "CreateStagedFile s dir = (Inr (o_next s, sp), s1)" "staging_path dir sp"
    "o_faults s1 = []" "o_space s1 = None"
    "v_ents (o_fs s1) = AList.update sp (Ino (o_next s)) (v_ents (o_fs s) @
       map (\<lambda>q. (q, Dir)) (filter (\<lambda>q. ent s q = None) (ancestors (stagingDir dir))))"
    "file_data (o_next s) s1 = []"
proof -
  let ?anc = "ancestors (stagingDir dir)"
  obtain s1 where 1: "MkdirAll s (stagingDir dir) = (None, s1)" "o_faults s1 = []" "o_space s1 = None"
      "o_next s1 = o_next s"
      "v_ents (o_fs s1) = v_ents (o_fs s) @ map (\<lambda>q. (q, Dir)) (filter (\<lambda>q. ent s q = None) ?anc)"
    using rdy by (auto simp: ready_def intro: quiet_MkdirAll)
  define rb where "rb = take 16 (o_entropy s1 (o_draws s1) @ replicate 16 0)"
  define s2 where "s2 = s1\<lparr>o_draws := Suc (o_draws s1)\<rparr>"
  have 2: "rand_Read16 s1 = (Inr rb, s2)" using 1(2) by (simp add: rand_Read16_def fault_quiet rb_def s2_def)
  define sp where "sp = stagingDir dir @ [EncodeToString rb @ ''.tmp'']"
  have stg: "staging_path dir sp" by (simp add: staging_path_def sp_def) (rule exI [of _ rb], simp add: rb_def)
  have "sp \<notin> set ?anc" by (rule staging_not_ancestor [OF stg])
  moreover have "map_of (v_ents (o_fs s)) sp = None"
    using rdy staging_child [OF stg] by (auto simp: ready_def list_all_iff map_of_eq_None_iff)
  ultimately have free: "ent s2 sp = None"
    by (simp add: ent_def s2_def 1(5) map_add_def map_of_dirs)
  have "stagingDir dir \<in> set ?anc" by (auto simp: ancestors_def stagingDir_def)
  with rdy have "is_dir s2 (butlast sp)"
    by (auto simp: ready_def is_dir_def ent_def s2_def 1(5) map_add_def map_of_dirs list_all_iff sp_def
        split: option.splits)
  with free 1 2 show thesis
    by (intro that [OF _ stg, of "snd (OpenExcl s2 sp)"])
       (auto simp: CreateStagedFile_def OpenExcl_def fault_quiet s2_def sp_def Let_def file_data_def inode_of_def)
qed

lemma quiet_File_Write:
  assumes "v_ents (o_fs s) = es \<and> o_faults s = [] \<and> o_space s = None" "File_Write i s b = (n, r, s')"
  shows "v_ents (o_fs s') = es \<and> o_faults s' = [] \<and> o_space s' = None"
  using assms by (auto simp: File_Write_def fault_quiet)

lemma quiet_CommitBarrier:
  assumes q: "o_faults s = []" and e: "ent s sp = Some (Ino f)" "\<not> is_dir s (dir @ [name])" "is_dir s dir"
    and ack: "WriteAck wr c = (None, c')"
  obtains s' where "CommitBarrier wr s f sp dir name c = (None, s', c')" "o_faults s' = []" "o_space s' = o_space s"
    "v_ents (o_fs s') = AList.update (dir @ [name]) (Ino f) (AList.delete sp (v_ents (o_fs s)))"
proof -
  obtain s1 where 1: "File_Sync s f = (None, s1)" "o_faults s1 = []" "o_space s1 = o_space s"
      "v_ents (o_fs s1) = v_ents (o_fs s)"
    using q by (simp add: File_Sync_def fault_quiet Let_def)
  have 2: "File_Close s1 = (None, s1)" using 1 by (simp add: File_Close_def fault_quiet)
  have e1: "ent s1 sp = Some (Ino f)" "\<not> is_dir s1 (dir @ [name])" "is_dir s1 dir"
    using e 1(4) by (simp_all add: ent_def is_dir_def)
  obtain s3 where 3: "Rename s1 sp (dir @ [name]) = (None, s3)" "o_faults s3 = []" "o_space s3 = o_space s"
      "v_ents (o_fs s3) = AList.update (dir @ [name]) (Ino f) (AList.delete sp (v_ents (o_fs s)))"
    using 1 e1 by (simp add: Rename_def fault_quiet Let_def)
  have "is_dir s3 dir" using e1 by (auto simp: is_dir_def ent_def 3(4) 1(4))
  then have 4: "Open s3 dir = (Inr Dir, s3)" using 3 by (simp add: Open_def fault_quiet)
  obtain s5 where 5: "Dir_Sync s3 dir = (None, s5)" "o_faults s5 = []" "o_space s5 = o_space s"
      "v_ents (o_fs s5) = v_ents (o_fs s3)"
    using 3 by (simp add: Dir_Sync_def fault_quiet sync_entries_def)
  have 6: "File_Close s5 = (None, s5)" using 5 by (simp add: File_Close_def fault_quiet)
  show thesis
    by (rule that [of s5]) (use 1 2 3 4 5 6 ack in \<open>simp_all add: CommitBarrier_def Let_def\<close>)
qed

lemma ancestors_not_target:
  assumes "ValidateFilename name = None"
  shows "dir @ [name] \<notin> set (ancestors (stagingDir dir))"
proof
  assume "dir @ [name] \<in> set (ancestors (stagingDir dir))"
  then have "prefix (dir @ [name]) (stagingDir dir)" by (auto simp: ancestors_def take_is_prefix)
  then have "name = ''.staging''" by (simp add: stagingDir_def)
  with valid_name_first [OF assms] name_char_no_sep(3) show False by simp
qed

section \<open>One file\<close>

definition deliverable :: "server \<Rightarrow> os \<Rightarrow> string \<times> byte list \<Rightarrow> bool" where
  "deliverable sv s = (\<lambda>(name, p). ValidateFilename name = None \<and> length p < 2 ^ 63 \<and>
     size_allowed (s_maxSize sv) (of_nat (length p)) \<and> ent s (s_incomingDir sv @ [name]) \<noteq> Some Dir)"

definition live :: "server \<Rightarrow> conn \<Rightarrow> bool" where
  "live sv c \<longleftrightarrow> buffered c \<and> \<not> expired (s_stop sv) (c_clock c) \<and> c_wbudget c = None"

lemma ready_after:
  assumes rdy: "ready dir s" and wf: "fs_wf s'" "o_faults s' = []" "o_space s' = None"
    and stg: "staging_path dir sp" and name: "ValidateFilename name = None"
    and ents: "v_ents (o_fs s') = AList.update (dir @ [name]) (Ino f) (AList.delete sp
      (AList.update sp (Ino f) (v_ents (o_fs s) @
         map (\<lambda>q. (q, Dir)) (filter (\<lambda>q. ent s q = None) (ancestors (stagingDir dir))))))"
  shows "ready dir s'"
    and "q \<noteq> dir @ [name] \<Longrightarrow> ent s' q = Some Dir \<Longrightarrow> ent s q = Some Dir \<or> q \<in> set (ancestors (stagingDir dir))"
proof -
  let ?anc = "ancestors (stagingDir dir)" and ?new = "v_ents (o_fs s) @
         map (\<lambda>q. (q, Dir)) (filter (\<lambda>q. ent s q = None) (ancestors (stagingDir dir)))"
  have ent': "ent s' q = (if q = dir @ [name] then Some (Ino f) else if q = sp then None
      else if q \<in> set ?anc \<and> ent s q = None then Some Dir else ent s q)" for q
    by (auto simp: ent_def ents map_add_def map_of_dirs split: option.splits)
  then show "q \<noteq> dir @ [name] \<Longrightarrow> ent s' q = Some Dir \<Longrightarrow> ent s q = Some Dir \<or> q \<in> set ?anc"
    by (auto split: if_splits)
  have "list_all (\<lambda>q. ent s' q = None \<or> ent s' q = Some Dir) ?anc"
    using rdy staging_not_ancestor [OF stg] ancestors_not_target [OF name]
    by (auto simp: ent' ready_def list_all_iff)
  moreover have "\<not> (child (stagingDir dir) q \<and> HasSuffix (last q) ''.tmp'')"
    if "(q, e) \<in> set (v_ents (o_fs s'))" for q e
  proof -
    have "(q, e) \<in> set ?new \<or> q = dir @ [name]"
      using that set_update [of "dir @ [name]" "Ino f"] set_update [of sp "Ino f" ?new]
      unfolding ents by (fastforce simp: set_delete)
    moreover have "\<not> child (stagingDir dir) (dir @ [name])"
      by (auto simp: child_def stagingDir_def)
    moreover have "\<not> child (stagingDir dir) q" if "q \<in> set ?anc"
      using that by (auto simp: child_def ancestors_def butlast_take) 
    ultimately show ?thesis using rdy by (auto simp: ready_def list_all_iff)
  qed
  ultimately show "ready dir s'" using wf by (auto simp: ready_def list_all_iff)
qed

lemma header_complete:
  assumes live: "live sv c" and v: "ValidateFilename name = None" "size_allowed (s_maxSize sv) sz"
    and pend: "pending c = header_bytes name sz @ rest"
  obtains c1 where
    "ReadRequestHeader conn_Read (SetReadDeadline c (c_clock c + ReceiverIdleTimeout)) (s_maxSize sv) =
       Some (name, sz, None, c1)"
    "buffered c1" "c_clock c1 = c_clock c" "pending c1 = rest" "c_end c1 = c_end c" "c_wbudget c1 = c_wbudget c"
proof -
  define c0 where "c0 = SetReadDeadline c (c_clock c + ReceiverIdleTimeout)"
  have b0: "buffered c0" "c_clock c0 = c_clock c" "\<not> expired (c_rdeadline c0) (c_clock c0)"
    using live by (simp_all add: c0_def live_def buffered_def SetReadDeadline_def expired_def ReceiverIdleTimeout_def second_def)
  have st0: "conn_stream 0 c0 = (header_bytes name sz @ rest, snd (c_end c0))"
    using conn_stream_buffered [OF b0(1)] b0(3) pend by (simp add: c0_def)
  obtain c1 where 1: "ReadRequestHeader conn_Read c0 (s_maxSize sv) = Some (name, sz, None, c1)"
      "conn_frame c1 = conn_frame c0"
    by (rule bare.ReadRequestHeader_complete [OF st0 v])
  have b1: "buffered c1 \<and> c_clock c1 = c_clock c"
    by (rule ReadRequestHeader_invariant [where Q = "\<lambda>x. buffered x \<and> c_clock x = c_clock c",
          OF 1(1) [unfolded conn_Read_bare]]) (use b0 in simp, erule (1) buffered_read)
  have "pending c1 = rest"
    using bare_fed.ReadRequestHeader_consumes [OF 1(1)] pend by (simp add: c0_def)
  with 1 b1 show thesis
    by (intro that [of c1]) (auto simp: c0_def conn_frame_def SetReadDeadline_def)
qed

lemma payload_complete:
  assumes c1: "buffered c1" "pending c1 = p @ sha256 p @ rest" "length p < 2 ^ 63"
    and s1: "o_faults s1 = []" "o_space s1 = None"
  obtains c2 s2 where
    "ReceiveStream file_copy_buf (File_Write f) (DeadlineConn_Read ReadWriteTimeout) s1 c1 (of_nat (length p)) =
       Some (None, c2, s2)"
    "buffered c2" "c_clock c2 = c_clock c1" "pending c2 = rest" "c_end c2 = c_end c1" "c_wbudget c2 = c_wbudget c1"
    "v_ents (o_fs s2) = v_ents (o_fs s1)" "o_faults s2 = []" "o_space s2 = None"
proof -
  have st1: "conn_stream ReadWriteTimeout c1 = (p @ sha256 p @ rest, snd (c_end c1))"
    using conn_stream_buffered [of c1 ReadWriteTimeout] c1 by (simp add: ReadWriteTimeout_def second_def)
  have buf: "0 < file_copy_buf" by (simp add: file_copy_buf_def)
  have room: "file_room s1 (length p)" using s1 by (simp add: file_room_def)
  obtain c2 s2 where 3: "ReceiveStream file_copy_buf (File_Write f) (DeadlineConn_Read ReadWriteTimeout)
      s1 c1 (of_nat (length p)) = Some (None, c2, s2)" "file_data f s2 = file_data f s1 @ p" "conn_frame c2 = conn_frame c1"
    by (rule recv.ReceiveStream_complete [OF buf st1 refl c1(3) room])
  have b2: "buffered c2 \<and> c_clock c2 = c_clock c1"
    by (rule ReceiveStream_invariant [where Q = "\<lambda>c _. buffered c \<and> c_clock c = c_clock c1", OF 3(1)])
       (use c1 in simp, erule (1) buffered_read, assumption)
  have q2: "v_ents (o_fs s2) = v_ents (o_fs s1) \<and> o_faults s2 = [] \<and> o_space s2 = None"
    by (rule ReceiveStream_invariant [where Q = "\<lambda>_ s. v_ents (o_fs s) = v_ents (o_fs s1) \<and> o_faults s = [] \<and> o_space s = None",
          OF 3(1)]) (use s1 in simp, assumption, erule (1) quiet_File_Write)
  have "pending c2 = rest"
    by (rule recv.ReceiveStream_consumes [OF buf 3(1)]) (metis 3(2) c1(2) same_append_eq)
  with 3 b2 q2 show thesis by (intro that [of c2 s2]) (auto simp: conn_frame_def)
qed

lemma handle_request_complete:
  assumes rdy: "ready (s_incomingDir sv) s" and live: "live sv c"
    and dv: "deliverable sv s (name, p)" and pend: "pending c = frame_bytes name p @ rest"
  obtains s' c' where
    "handle_request sv s c t = Some (True, s', c', map_option (Tracker_RecordSuccess (c_clock c) (of_nat (length p))) t)"
    "ready (s_incomingDir sv) s'" "live sv c'" "pending c' = rest" "c_end c' = c_end c" "c_clock c' = c_clock c"
    "\<And>f. deliverable sv s f \<Longrightarrow> deliverable sv s' f"
proof -
  let ?dir = "s_incomingDir sv" and ?anc = "ancestors (stagingDir (s_incomingDir sv))"
  have v: "ValidateFilename name = None" "length p < 2 ^ 63" "size_allowed (s_maxSize sv) (of_nat (length p))"
    "ent s (?dir @ [name]) \<noteq> Some Dir"
    using dv by (simp_all add: deliverable_def)
  obtain c1 where 1: "ReadRequestHeader conn_Read (SetReadDeadline c (c_clock c + ReceiverIdleTimeout)) (s_maxSize sv) =
       Some (name, of_nat (length p), None, c1)"
    "buffered c1" "c_clock c1 = c_clock c" "pending c1 = p @ sha256 p @ rest" "c_end c1 = c_end c" "c_wbudget c1 = c_wbudget c"
    by (rule header_complete [OF live v(1,3)]) (use pend in \<open>auto simp: frame_bytes_def\<close>)
  obtain sp s1 where 2: "CreateStagedFile s ?dir = (Inr (o_next s, sp), s1)"
      "staging_path ?dir sp" "o_faults s1 = []" "o_space s1 = None"
      "v_ents (o_fs s1) = AList.update sp (Ino (o_next s)) (v_ents (o_fs s) @
         map (\<lambda>q. (q, Dir)) (filter (\<lambda>q. ent s q = None) ?anc))"
    by (rule quiet_CreateStagedFile [OF rdy])
  obtain c2 s2 where 3: "ReceiveStream file_copy_buf (File_Write (o_next s)) (DeadlineConn_Read ReadWriteTimeout)
        s1 c1 (of_nat (length p)) = Some (None, c2, s2)"
    "buffered c2" "c_clock c2 = c_clock c1" "pending c2 = rest" "c_end c2 = c_end c1" "c_wbudget c2 = c_wbudget c1"
    "v_ents (o_fs s2) = v_ents (o_fs s1)" "o_faults s2 = []" "o_space s2 = None"
    by (rule payload_complete [OF 1(2,4) v(2) 2(3,4)])
  define c3 where "c3 = c2\<lparr>c_wdeadline := Some (c_clock c2 + ReadWriteTimeout), c_sent := c_sent c2 @ [AckByte]\<rparr>"
  have ack: "WriteAck (DeadlineConn_Write ReadWriteTimeout) c2 = (None, c3)"
    using 1(6) 3(6) live
    by (simp add: WriteAck_def DeadlineConn_Write_def conn_Write_def SetWriteDeadline_def expired_def
        ReadWriteTimeout_def second_def c3_def live_def)
  note tgt = staging_not_target(1) [OF 2(2) v(1)] ancestors_not_target [OF v(1), of ?dir]
  have e2: "ent s2 q = (if q = sp then Some (Ino (o_next s)) else if q \<in> set ?anc \<and> ent s q = None then Some Dir else ent s q)" for q
    by (auto simp: ent_def 3(7) 2(5) map_add_def map_of_dirs split: option.splits)
  have "?dir = [] \<or> ?dir \<in> set ?anc" by (cases ?dir rule: rev_cases) (auto simp: ancestors_def stagingDir_def)
  then have dir: "is_dir s2 ?dir"
    using rdy staging_not_ancestor [OF 2(2)] by (auto simp: is_dir_def e2 ready_def list_all_iff)
  obtain s3 where 4: "CommitBarrier (DeadlineConn_Write ReadWriteTimeout) s2 (o_next s) sp ?dir name c2 = (None, s3, c3)"
      "o_faults s3 = []" "o_space s3 = o_space s2"
      "v_ents (o_fs s3) = AList.update (?dir @ [name]) (Ino (o_next s)) (AList.delete sp (v_ents (o_fs s2)))"
    by (rule quiet_CommitBarrier [OF 3(8) _ _ dir ack, of sp "o_next s" name])
       (use tgt v(4) in \<open>auto simp: e2 is_dir_def\<close>)
  have run: "\<not> expired (s_stop sv) (c_clock c)" using live by (simp add: live_def)
  have call: "handle_request sv s c t = Some (True, s3, c3, map_option (Tracker_RecordSuccess (c_clock c) (of_nat (length p))) t)"
    using run 1 2(1) 3 4(1) by (simp add: handle_request_def c3_def)
  have wf: "fs_wf s3" using handle_request_turn [OF _ call] rdy turn_wf by (auto simp: ready_def)
  have rdy': "ready ?dir s3" "q \<noteq> ?dir @ [name] \<Longrightarrow> ent s3 q = Some Dir \<Longrightarrow> ent s q = Some Dir \<or> q \<in> set ?anc" for q
    using ready_after [OF rdy wf 4(2) _ 2(2) v(1), of "o_next s"] 3 4 2(5) by auto
  have "deliverable sv s3 x" if "deliverable sv s x" for x
  proof (cases x)
    case (Pair n y)
    with that have "ValidateFilename n = None" "ent s (?dir @ [n]) \<noteq> Some Dir"
      by (simp_all add: deliverable_def)
    moreover have "ent s3 (?dir @ [name]) = Some (Ino (o_next s))" by (simp add: ent_def 4(4))
    ultimately have "ent s3 (?dir @ [n]) \<noteq> Some Dir"
      using rdy'(2) [of "?dir @ [n]"] ancestors_not_target by (cases "n = name") auto
    with that Pair show ?thesis by (simp add: deliverable_def)
  qed
  moreover have "live sv c3" using 1 3 live by (simp add: live_def c3_def buffered_def)
  ultimately show thesis
    using call rdy' 1 3 by (intro that [of s3 c3]) (auto simp: c3_def pending_def)
qed

section \<open>Every connection ends\<close>

lemma handle_request_returns: "\<exists>go s' c' t'. handle_request sv s c t = Some (go, s', c', t')"
proof -
  obtain name sz r1 c1 where 1: "ReadRequestHeader conn_Read (SetReadDeadline c (c_clock c + ReceiverIdleTimeout))
      (s_maxSize sv) = Some (name, sz, r1, c1)"
    using bare.ReadRequestHeader_returns by blast
  obtain r2 s1 where 2: "CreateStagedFile s (s_incomingDir sv) = (r2, s1)" by fastforce
  have 3: "\<exists>r c2 s2. ReceiveStream file_copy_buf (File_Write f) (DeadlineConn_Read ReadWriteTimeout) s1 c1 sz =
      Some (r, c2, s2)" for f
    using recv.ReceiveStream_returns [of file_copy_buf f ReadWriteTimeout s1 c1 sz] by (auto simp: file_copy_buf_def)
  show ?thesis
  proof (cases "r1 = None \<and> (\<exists>f sp. r2 = Inr (f, sp))")
    case True
    then obtain f sp where r: "r1 = None" "r2 = Inr (f, sp)" by blast
    obtain r3 c2 s2 where "ReceiveStream file_copy_buf (File_Write f) (DeadlineConn_Read ReadWriteTimeout) s1 c1 sz =
      Some (r3, c2, s2)" using 3 by blast
    with 1 2 r show ?thesis
      by (auto simp: handle_request_def nack_close_def Let_def split: option.splits prod.splits)
  next
    case False
    with 1 2 show ?thesis
      by (cases r1; cases r2) (auto simp: handle_request_def nack_close_def Let_def)
  qed
qed

lemma handle_loop_returns:
  "fs_wf s \<Longrightarrow> \<exists>s' c' t'. handle_loop sv s c t = Some (s', c', t') \<and> fs_wf s'"
proof (induction "length (pending c)" arbitrary: s c t rule: less_induct)
  case less
  obtain go s1 c1 t1 where call: "handle_request sv s c t = Some (go, s1, c1, t1)"
    using handle_request_returns by blast
  note tr = handle_request_turn [OF less.prems call]
  show ?case
  proof (cases go)
    case False
    with call turn_wf [OF tr] show ?thesis by (subst handle_loop.simps) simp
  next
    case True
    from tr True have "turn sv s c t True s1 c1 t1" by simp
    then have "length (pending c1) < length (pending c)"
      by (cases rule: turn_True) (simp add: frame_bytes_def length_header_bytes)
    from less.hyps [OF this turn_wf [OF tr]] call True show ?thesis
      by (subst handle_loop.simps) simp
  qed
qed


section \<open>A whole session\<close>

lemma turn_content:
  assumes wf: "fs_wf s" and call: "handle_request sv s c t = Some (True, s', c', t')"
    and pend: "pending c = frame_bytes name p @ pending c'" and v: "ValidateFilename name = None" "length p < 2 ^ 63"
  shows "content s' = (content s)(s_incomingDir sv @ [name] \<mapsto> p)" "c_sent c' = c_sent c @ [AckByte]"
proof -
  from handle_request_turn [OF wf call]
  show "content s' = (content s)(s_incomingDir sv @ [name] \<mapsto> p)"
  proof (cases rule: turn_True)
    case (acked sp f name' p')
    from acked(8) pend have "frame_bytes name' p' = frame_bytes name p" by simp
    with acked v have "name' = name \<and> p' = p" by (simp add: frame_bytes_inj)
    moreover have "content s sp = None" using acked(3) by (simp add: file_at_content)
    ultimately show ?thesis using arrived_content [OF acked(9) wf] by (auto simp: fun_eq_iff)
  qed
  from handle_request_turn [OF wf call] show "c_sent c' = c_sent c @ [AckByte]"
    by (cases rule: turn_True)
qed

lemma handle_request_eof:
  assumes "live sv c" "pending c = []" "snd (c_end c) = EOF"
  shows "\<exists>c'. handle_request sv s c t = Some (False, s, c', t) \<and> c_sent c' = c_sent c"
proof -
  define c0 where "c0 = SetReadDeadline c (c_clock c + ReceiverIdleTimeout)"
  have "buffered c0" "\<not> expired (c_rdeadline c0) (c_clock c0)" "pending c0 = []" "c_end c0 = c_end c"
    using assms by (simp_all add: c0_def live_def buffered_def SetReadDeadline_def pending_def expired_def
        ReceiverIdleTimeout_def second_def)
  then have st: "conn_stream 0 c0 = ([], EOF)" using conn_stream_buffered [of c0 0] assms(3) by simp
  obtain c1 where "ReadFull conn_Read c0 4 = Some ([], Some EOF, c1)" "conn_frame c1 = conn_frame c0"
    by (rule bare.ReadFull_short [OF st, of 4]) auto
  then show ?thesis
    using assms(1) by (auto simp: handle_request_def ReadRequestHeader_def live_def conn_frame_def c0_def SetReadDeadline_def)
qed

lemma session_loop:
  assumes "ready (s_incomingDir sv) s" "live sv c" "snd (c_end c) = EOF"
    and "pending c = concat (map (\<lambda>(n, p). frame_bytes n p) fs)" "list_all (deliverable sv s) fs"
  shows "\<exists>s' c'. handle_loop sv s c t = Some (s', c',
      map_option (fold (\<lambda>(n, p). Tracker_RecordSuccess (c_clock c) (of_nat (length p))) fs) t) \<and>
    c_sent c' = c_sent c @ replicate (length fs) AckByte \<and>
    content s' = fold (\<lambda>(n, p) m. m(s_incomingDir sv @ [n] \<mapsto> p)) fs (content s)"
  using assms
proof (induction fs arbitrary: s c t)
  case Nil
  with handle_request_eof [of sv c s t] show ?case
    by (subst handle_loop.simps) (auto simp: option.map_id)
next
  case (Cons x fs)
  obtain n p where x: "x = (n, p)" by fastforce
  let ?t1 = "map_option (Tracker_RecordSuccess (c_clock c) (of_nat (length p))) t"
  obtain s1 c1 where 1: "handle_request sv s c t = Some (True, s1, c1, ?t1)"
    "ready (s_incomingDir sv) s1" "live sv c1" "pending c1 = concat (map (\<lambda>(n, p). frame_bytes n p) fs)"
    "c_end c1 = c_end c" "c_clock c1 = c_clock c" "\<And>f. deliverable sv s f \<Longrightarrow> deliverable sv s1 f"
    by (rule handle_request_complete [OF Cons.prems(1,2), of n p "concat (map (\<lambda>(n, p). frame_bytes n p) fs)" t])
       (use Cons.prems(4,5) x in simp_all)
  have v: "ValidateFilename n = None" "length p < 2 ^ 63"
    using Cons.prems(5) x by (auto simp: deliverable_def)
  have wf: "fs_wf s" using Cons.prems(1) by (simp add: ready_def)
  note one = turn_content [OF wf 1(1) _ v]
  from Cons.prems 1(5,7) have "snd (c_end c1) = EOF" "list_all (deliverable sv s1) fs"
    by (auto simp: list_all_iff)
  from Cons.IH [OF 1(2,3) this(1) 1(4) this(2), of ?t1] one 1 Cons.prems(4) x show ?case
    by (subst handle_loop.simps) (auto simp: option.map_comp comp_def simp del: fun_upd_apply)
qed

text \<open>
  C12: a whole session. When a receiver without system faults and with an empty staging area gets
  a connection on which the frames of the files \<open>fs\<close> arrive, all valid, admissible and not
  named like an existing directory, followed by a clean close, then every file is committed: the
  directory afterwards is the directory before with the files written in order, nothing else has
  changed, there is one ACK per file, and the tracker has counted every file.
\<close>

theorem session_commits_all:
  assumes "ready (s_incomingDir sv) s" "live sv c" "snd (c_end c) = EOF"
    and "pending c = concat (map (\<lambda>(n, p). frame_bytes n p) fs)" "list_all (deliverable sv s) fs"
  shows "\<exists>s' c'. handleConnection sv None s c t = Some (s', c',
      map_option (fold (\<lambda>(n, p). Tracker_RecordSuccess (c_clock c) (of_nat (length p))) fs) t) \<and>
    c_sent c' = c_sent c @ replicate (length fs) AckByte \<and>
    content s' = fold (\<lambda>(n, p) m. m(s_incomingDir sv @ [n] \<mapsto> p)) fs (content s)"
proof -
  define c0 where "c0 = SetDeadline c (c_clock c + HandshakeTimeout)"
  have "live sv c0" "snd (c_end c0) = EOF" "pending c0 = pending c" "c_clock c0 = c_clock c" "c_sent c0 = c_sent c"
    using assms by (simp_all add: c0_def SetDeadline_def SetWriteDeadline_def SetReadDeadline_def live_def
        buffered_def pending_def)
  with session_loop [OF assms(1), of c0 fs t] assms show ?thesis
    by (simp add: handleConnection_def c0_def)
qed

section \<open>A concrete session\<close>

text \<open>A receiver with one old file, and a peer that sends one file of three bytes and closes.\<close>

definition demo_server :: server where
  "demo_server = \<lparr>s_incomingDir = [''in''], s_listenAddr = '':9000'', s_certFile = ''c.pem'', s_keyFile = ''k.pem'',
     s_allowedSenderFPs = [''ab''], s_maxSize = 0, s_stop = None\<rparr>"

definition demo_os :: os where
  "demo_os = \<lparr>o_fs = \<lparr>v_ents = [([''in''], Dir), ([''in'', ''old.csv''], Ino 0)],
       v_disk = [([''in''], Dir), ([''in'', ''old.csv''], Ino 0)],
       v_inodes = (\<lambda>_. \<lparr>i_data = [7], i_synced = [7], i_mtime = 0\<rparr>)\<rparr>,
     o_hist = [], o_next = 1, o_faults = [], o_space = None, o_clock = 0, o_entropy = (\<lambda>_. []), o_draws = 0\<rparr>"

definition demo_conn :: conn where
  "demo_conn = \<lparr>c_clock = 0, c_rdeadline = None, c_wdeadline = None,
     c_in = [(0, frame_bytes ''report.csv'' [1, 2, 3])], c_end = (0, EOF), c_sent = [], c_wbudget = None,
     c_werr = ErrClosed, c_addr = ''peer''\<rparr>"

lemma demo_ready: "ready (s_incomingDir demo_server) demo_os"
  by code_simp

lemma demo_wf: "fs_wf demo_os"
  using demo_ready by (simp add: ready_def)

lemma demo_live: "live demo_server demo_conn" "snd (c_end demo_conn) = EOF"
  by (simp_all add: live_def demo_server_def demo_conn_def buffered_def expired_def)

lemma demo_name: "ValidateFilename ''report.csv'' = None"
  by code_simp

lemma demo_deliverable: "deliverable demo_server demo_os (''report.csv'', [1, 2, 3])"
  by (simp add: deliverable_def demo_name size_allowed_def demo_server_def demo_os_def ent_def)

lemma demo_pending: "pending demo_conn = frame_bytes ''report.csv'' [1, 2, 3]"
  by (simp add: pending_def demo_conn_def)

lemma demo_turn:
  obtains s' c' where "handle_request demo_server demo_os demo_conn None = Some (True, s', c', None)"
    "content s' [''in'', ''report.csv''] = Some [1, 2, 3]" "content demo_os [''in'', ''report.csv''] = None"
    "survives (o_fs s') [''in'', ''report.csv''] [1, 2, 3]"
    "o_fs s' \<in> set (drop (length (o_hist demo_os)) (o_hist s'))"
    "\<not> prefix (stagingDir (s_incomingDir demo_server)) [''in'', ''report.csv'']"
proof -
  obtain s' c' where call: "handle_request demo_server demo_os demo_conn None = Some (True, s', c', None)"
      and pend: "pending c' = []"
    by (rule handle_request_complete [OF demo_ready demo_live(1) demo_deliverable, of "[]" None])
       (simp_all add: demo_pending)
  from demo_wf call obtain name p where a: "ValidateFilename name = None" "length p < 2 ^ 63"
    "pending demo_conn = frame_bytes name p @ pending c'"
    "content s' (s_incomingDir demo_server @ [name]) = Some p"
    "survives (o_fs s') (s_incomingDir demo_server @ [name]) p"
    "o_fs s' \<in> set (drop (length (o_hist demo_os)) (o_hist s'))"
    by (rule acked_durable) (rule that, auto)
  from demo_name a(1-3) pend have "name = ''report.csv'' \<and> p = [1, 2, 3]"
    by (intro frame_bytes_inj) (simp_all add: demo_pending)
  with a(4-6) call show thesis
    by (intro that [of s' c']) (simp_all add: demo_server_def demo_os_def content_def ent_def stagingDir_def prefix_def)
qed

lemma demo_session:
  obtains s' c' where "handleConnection demo_server None demo_os demo_conn None = Some (s', c', None)" "c_sent c' = [AckByte]"
proof -
  have l: "live demo_server (SetDeadline demo_conn HandshakeTimeout)"
    using demo_live(1) by (simp add: live_def buffered_def SetDeadline_def SetWriteDeadline_def SetReadDeadline_def)
  have "\<exists>s' c'. handle_loop demo_server demo_os (SetDeadline demo_conn HandshakeTimeout) None = Some (s', c', None) \<and>
      c_sent c' = [AckByte]"
    using session_loop [OF demo_ready l, of "[(''report.csv'', [1, 2, 3])]" None] demo_pending demo_deliverable demo_live(2)
    by (simp add: SetDeadline_def SetWriteDeadline_def SetReadDeadline_def pending_def) (auto simp: demo_conn_def)
  then show thesis using that by (auto simp: handleConnection_def demo_conn_def)
qed

theorem acked_file_is_durable_witness:
  "\<exists>s' c'. handle_request demo_server demo_os demo_conn None = Some (True, s', c', None) \<and>
    (\<exists>name p. let tgt = s_incomingDir demo_server @ [name] in
      ValidateFilename name = None \<and> size_allowed (s_maxSize demo_server) (of_nat (length p)) \<and>
      pending demo_conn = header_bytes name (of_nat (length p)) @ p @ sha256 p @ pending c' \<and>
      content s' tgt = Some p \<and> ent s' tgt = map_of (v_disk (o_fs s')) tgt \<and>
      (\<forall>x. survives (o_fs s') tgt x = (x = p)) \<and> c_sent c' = c_sent demo_conn @ [AckByte])"
  using demo_wf acked_file_is_durable [of demo_os demo_server demo_conn None] demo_turn by metis

theorem only_verified_files_appear_witness:
  "\<exists>s' c' name p rest. handle_request demo_server demo_os demo_conn None = Some (True, s', c', None) \<and>
    [''in'', ''report.csv''] = s_incomingDir demo_server @ [name] \<and> ValidateFilename name = None \<and>
    content s' [''in'', ''report.csv''] = Some p \<and>
    pending demo_conn = header_bytes name (of_nat (length p)) @ p @ sha256 p @ rest"
proof -
  obtain s' c' where d: "handle_request demo_server demo_os demo_conn None = Some (True, s', c', None)"
    "content s' [''in'', ''report.csv''] = Some [1, 2, 3]" "content demo_os [''in'', ''report.csv''] = None"
    "\<not> prefix (stagingDir (s_incomingDir demo_server)) [''in'', ''report.csv'']"
    by (rule demo_turn)
  then have "content s' [''in'', ''report.csv''] \<noteq> content demo_os [''in'', ''report.csv'']" by simp
  from only_verified_files_appear [OF demo_wf d(1,4) this] d(1) show ?thesis by blast
qed

theorem crash_atomic_witness:
  "\<exists>s' c'. handle_request demo_server demo_os demo_conn None = Some (True, s', c', None) \<and>
    o_fs s' \<in> set (drop (length (o_hist demo_os)) (o_hist s')) \<and>
    survives (o_fs s') [''in'', ''report.csv''] [1, 2, 3] \<and>
    (survives (o_fs demo_os) [''in'', ''report.csv''] [1, 2, 3] \<or>
     (\<exists>name rest. [''in'', ''report.csv''] = s_incomingDir demo_server @ [name] \<and> ValidateFilename name = None \<and>
       pending demo_conn = header_bytes name (of_nat (length [1 :: byte, 2, 3])) @ [1, 2, 3] @ sha256 [1, 2, 3] @ rest))"
proof -
  obtain s' c' where d: "handle_request demo_server demo_os demo_conn None = Some (True, s', c', None)"
    "survives (o_fs s') [''in'', ''report.csv''] [1, 2, 3]"
    "o_fs s' \<in> set (drop (length (o_hist demo_os)) (o_hist s'))"
    "\<not> prefix (stagingDir (s_incomingDir demo_server)) [''in'', ''report.csv'']"
    by (rule demo_turn)
  from crash_atomic [OF demo_wf d(1,4,3,2)] d show ?thesis by blast
qed

theorem staging_left_clean_witness:
  "\<exists>s' c'. handle_request demo_server demo_os demo_conn None = Some (True, s', c', None) \<and>
    content s' [''in'', ''.staging'', ''x.tmp''] = content demo_os [''in'', ''.staging'', ''x.tmp'']"
proof -
  obtain s' c' where d: "handle_request demo_server demo_os demo_conn None = Some (True, s', c', None)"
    by (rule demo_turn)
  have "o_faults demo_os = []" "prefix (stagingDir (s_incomingDir demo_server)) [''in'', ''.staging'', ''x.tmp'']"
    by (simp_all add: demo_os_def demo_server_def stagingDir_def)
  from staging_left_clean [OF demo_wf d this] d show ?thesis by blast
qed

theorem one_response_per_turn_witness:
  "\<exists>s' c'. handle_request demo_server demo_os demo_conn None = Some (True, s', c', None) \<and>
    c_sent c' = c_sent demo_conn @ [AckByte]"
proof -
  obtain s' c' where d: "handle_request demo_server demo_os demo_conn None = Some (True, s', c', None)"
    by (rule demo_turn)
  from one_response_per_turn [OF demo_wf d] d show ?thesis by auto
qed


theorem session_commits_all_witness:
  "\<exists>s' c'. handleConnection demo_server None demo_os demo_conn None = Some (s', c', None) \<and>
    c_sent c' = [AckByte] \<and> content s' = (content demo_os)([''in'', ''report.csv''] \<mapsto> [1, 2, 3])"
  using session_commits_all [OF demo_ready demo_live, of "[(''report.csv'', [1, 2, 3])]" None]
    demo_pending demo_deliverable
  by (simp add: demo_server_def) (simp add: demo_conn_def)

end
