(* ===== verification/Sender_Queue.thy ===== *)
theory Sender_Queue
  imports Os_Laws Monitor_Status "HOL-Library.Multiset"
begin

text \<open>
  The transfer queue of \<^verbatim>\<open>internal/sender/queue.go\<close>: pending files ordered by modification
  time, an index of the names that are queued, failure counters and the quarantine directory.
  Every method holds the queue's mutex, so each is one atomic step on the queue, the tracker and,
  for quarantine, the file system. A blocked \<^verbatim>\<open>Pop\<close> is the result \<open>None\<close>: the call waits
  and is tried again after the next \<^verbatim>\<open>Push\<close> or \<^verbatim>\<open>Stop\<close>.
\<close>

section \<open>State\<close>

record FileItem =
  Filename :: string
  Path :: path
  Size :: int
  ModTime :: int

record queue =
  q_watchDir :: path
  q_maxAttempts :: int
  q_items :: "FileItem list"
  q_inQueue :: "string set"
  q_attempts :: "string \<rightharpoonup> int"
  q_failedCount :: int
  q_stopped :: bool

definition failedDir :: "queue \<Rightarrow> path" where
  "failedDir q = q_watchDir q @ [''.failed'']"

definition set_counts :: "queue \<Rightarrow> tracker option \<Rightarrow> tracker option" where
  "set_counts q t = map_option (SetQueueCounts (int (length (q_items q))) (q_failedCount q)) t"

section \<open>Operations\<close>

definition updateFailedCount :: "os \<Rightarrow> queue \<Rightarrow> tracker option \<Rightarrow> os \<times> queue \<times> tracker option" where
  "updateFailedCount s q t =
     (case ReadDir s (failedDir q) of (r, s1) \<Rightarrow>
        (let q1 = (case r of
                     Inl err \<Rightarrow> q
                   | Inr entries \<Rightarrow> q\<lparr>q_failedCount := int (length (filter (\<lambda>(n, e). e \<noteq> Dir) entries))\<rparr>)
         in (s1, q1, set_counts q1 t)))"

definition NewQueue :: "os \<Rightarrow> path \<Rightarrow> int \<Rightarrow> tracker option \<Rightarrow> os \<times> queue \<times> tracker option" where
  "NewQueue s watchDir maxAttempts t =
     updateFailedCount s
       \<lparr>q_watchDir = watchDir, q_maxAttempts = (if maxAttempts \<le> 0 then 10 else maxAttempts), q_items = [],
        q_inQueue = {}, q_attempts = Map.empty, q_failedCount = 0, q_stopped = False\<rparr> t"

text \<open>
  \<open>srt\<close> is \<^verbatim>\<open>sort.Slice\<close> with the comparison of the modification times; Go does not
  promise a stable sort, so any sorting function is allowed.
\<close>

definition Push ::
  "(FileItem list \<Rightarrow> FileItem list) \<Rightarrow> queue \<Rightarrow> tracker option \<Rightarrow> FileItem \<Rightarrow> queue \<times> tracker option"
where
  "Push srt q t item =
     (if q_stopped q then (q, t)
      else if Filename item \<in> q_inQueue q then (q, t)
      else
        (let q1 = q\<lparr>q_items := srt (q_items q @ [item]), q_inQueue := insert (Filename item) (q_inQueue q)\<rparr>
         in (q1, set_counts q1 t)))"

definition Pop :: "queue \<Rightarrow> tracker option \<Rightarrow> (FileItem option \<times> queue \<times> tracker option) option" where
  "Pop q t =
     (case q_items q of
        [] \<Rightarrow> if q_stopped q then Some (None, q, t) else None
      | item # rest \<Rightarrow>
          (let q1 = q\<lparr>q_items := rest, q_inQueue := q_inQueue q - {Filename item}\<rparr>
           in Some (Some item, q1, set_counts q1 t)))"

definition RecordSuccess :: "queue \<Rightarrow> string \<Rightarrow> queue" where
  "RecordSuccess q filename = q\<lparr>q_attempts := (q_attempts q)(filename := None)\<rparr>"

definition attempts_of :: "queue \<Rightarrow> string \<Rightarrow> int" where
  "attempts_of q n = (case q_attempts q n of None \<Rightarrow> 0 | Some k \<Rightarrow> k)"

definition RecordFailure ::
  "(FileItem list \<Rightarrow> FileItem list) \<Rightarrow> os \<Rightarrow> queue \<Rightarrow> tracker option \<Rightarrow> FileItem \<Rightarrow>
   bool \<times> os \<times> queue \<times> tracker option"
where
  "RecordFailure srt s q t item =
     (let cnt = attempts_of q (Filename item) + 1;
          q1 = q\<lparr>q_attempts := (q_attempts q)(Filename item \<mapsto> cnt)\<rparr>
      in if cnt \<ge> q_maxAttempts q then
           (let s1 = snd (MkdirAll s (failedDir q));
                s2 = snd (Rename s1 (Path item) (failedDir q @ [Filename item]));
                q2 = q1\<lparr>q_attempts := (q_attempts q1)(Filename item := None),
                        q_inQueue := q_inQueue q1 - {Filename item}\<rparr>
            in (True, updateFailedCount s2 q2 t))
         else if Filename item \<notin> q_inQueue q then
           (let q2 = q1\<lparr>q_items := srt (item # q_items q), q_inQueue := insert (Filename item) (q_inQueue q)\<rparr>
            in (False, s, q2, set_counts q2 t))
         else (False, s, q1, t))"

definition Stop :: "queue \<Rightarrow> queue" where
  "Stop q = q\<lparr>q_stopped := True\<rparr>"

definition Len :: "queue \<Rightarrow> nat" where
  "Len q = length (q_items q)"

section \<open>Sorting by age\<close>

locale age_sort =
  fixes srt :: "FileItem list \<Rightarrow> FileItem list"
  assumes srt_mset: "mset (srt xs) = mset xs"
    and srt_sorted: "sorted (map ModTime (srt xs))"
begin

lemma srt_set: "set (srt xs) = set xs"
  by (metis srt_mset set_mset_mset)

lemma srt_length: "length (srt xs) = length xs"
  by (metis srt_mset size_mset)

lemma srt_names: "distinct (map Filename (srt xs)) = distinct (map Filename xs)"
  by (metis mset_eq_imp_distinct_iff mset_map srt_mset)

end

text \<open>The stable insertion sort that Go uses for short slices is one such function.\<close>

interpretation by_age: age_sort "sort_key ModTime"
  by unfold_locales simp_all

section \<open>The invariant\<close>

text \<open>Oldest first, no name twice, and the index agrees with the items.\<close>

definition queue_inv :: "queue \<Rightarrow> bool" where
  "queue_inv q \<longleftrightarrow> sorted (map ModTime (q_items q)) \<and> distinct (map Filename (q_items q)) \<and>
     q_inQueue q = Filename ` set (q_items q) \<and> 0 < q_maxAttempts q"

text \<open>The abstract queue: the pending file of each name.\<close>

definition pending_item :: "queue \<Rightarrow> string \<Rightarrow> FileItem option" where
  "pending_item q n = map_of (map (\<lambda>i. (Filename i, i)) (q_items q)) n"

lemma pending_item_iff:
  "distinct (map Filename (q_items q)) \<Longrightarrow>
   pending_item q n = Some i \<longleftrightarrow> i \<in> set (q_items q) \<and> Filename i = n"
  by (auto simp: pending_item_def map_of_eq_Some_iff comp_def)

lemma updateFailedCount_sel:
  assumes "updateFailedCount s q t = (s', q', t')"
  shows "q_items q' = q_items q \<and> q_inQueue q' = q_inQueue q \<and> q_attempts q' = q_attempts q \<and>
    q_maxAttempts q' = q_maxAttempts q \<and> q_stopped q' = q_stopped q \<and> q_watchDir q' = q_watchDir q \<and>
    t' = set_counts q' t"
  using assms by (auto simp: updateFailedCount_def Let_def split: prod.splits sum.splits)

lemma queue_inv_NewQueue: "NewQueue s d m t = (s', q, t') \<Longrightarrow> queue_inv q"
  by (auto simp: NewQueue_def queue_inv_def dest: updateFailedCount_sel)

context age_sort
begin

lemma queue_inv_Push: "queue_inv q \<Longrightarrow> Push srt q t item = (q', t') \<Longrightarrow> queue_inv q'"
  by (auto simp: Push_def queue_inv_def srt_sorted srt_names srt_set Let_def split: if_splits)

lemma queue_inv_Pop: "queue_inv q \<Longrightarrow> Pop q t = Some (r, q', t') \<Longrightarrow> queue_inv q'"
  by (auto simp: Pop_def queue_inv_def Let_def split: list.splits if_splits)

lemma queue_inv_RecordFailure:
  assumes "queue_inv q" "Filename item \<notin> q_inQueue q" "RecordFailure srt s q t item = (b, s', q', t')"
  shows "queue_inv q'"
  using assms by (auto simp: RecordFailure_def queue_inv_def srt_sorted srt_names srt_set Let_def
      split: if_splits dest!: updateFailedCount_sel)

end

lemma queue_inv_RecordSuccess: "queue_inv q \<Longrightarrow> queue_inv (RecordSuccess q n)"
  by (simp add: queue_inv_def RecordSuccess_def)

lemma queue_inv_Stop: "queue_inv q \<Longrightarrow> queue_inv (Stop q)"
  by (simp add: queue_inv_def Stop_def)

section \<open>The queue in the sender\<close>

text \<open>
  The queue as the scanner and the workers use it. \<open>y_flight\<close> are the items popped by workers
  and not yet reported; the other components are history: what was accepted, sent and
  quarantined, and for each name the failures since the last success or quarantine. The scanner
  pushes a name only when it is not in flight; that is its part of the contract.
\<close>

record qsys =
  y_os :: os
  y_queue :: queue
  y_tracker :: "tracker option"
  y_flight :: "FileItem multiset"
  y_pushed :: "FileItem multiset"
  y_sent :: "FileItem multiset"
  y_quarantined :: "FileItem multiset"
  y_fails :: "string \<Rightarrow> nat"

inductive qstep :: "(FileItem list \<Rightarrow> FileItem list) \<Rightarrow> qsys \<Rightarrow> qsys \<Rightarrow> bool" for srt where
  push_ok: "Filename item \<notin># image_mset Filename (y_flight y) \<Longrightarrow> Filename item \<notin> q_inQueue (y_queue y) \<Longrightarrow>
    \<not> q_stopped (y_queue y) \<Longrightarrow> Push srt (y_queue y) (y_tracker y) item = (q', t') \<Longrightarrow>
    qstep srt y (y\<lparr>y_queue := q', y_tracker := t', y_pushed := add_mset item (y_pushed y)\<rparr>)"
| push_ignored: "Filename item \<in> q_inQueue (y_queue y) \<or> q_stopped (y_queue y) \<Longrightarrow>
    Push srt (y_queue y) (y_tracker y) item = (q', t') \<Longrightarrow> qstep srt y (y\<lparr>y_queue := q', y_tracker := t'\<rparr>)"
| pop: "Pop (y_queue y) (y_tracker y) = Some (Some item, q', t') \<Longrightarrow>
    qstep srt y (y\<lparr>y_queue := q', y_tracker := t', y_flight := add_mset item (y_flight y)\<rparr>)"
| sent: "item \<in># y_flight y \<Longrightarrow>
    qstep srt y (y\<lparr>y_queue := RecordSuccess (y_queue y) (Filename item), y_flight := y_flight y - {#item#},
      y_sent := add_mset item (y_sent y), y_fails := (y_fails y)(Filename item := 0)\<rparr>)"
| retry: "item \<in># y_flight y \<Longrightarrow> RecordFailure srt (y_os y) (y_queue y) (y_tracker y) item = (False, s', q', t') \<Longrightarrow>
    qstep srt y (y\<lparr>y_os := s', y_queue := q', y_tracker := t', y_flight := y_flight y - {#item#},
      y_fails := (y_fails y)(Filename item := Suc (y_fails y (Filename item)))\<rparr>)"
| quarantine: "item \<in># y_flight y \<Longrightarrow> RecordFailure srt (y_os y) (y_queue y) (y_tracker y) item = (True, s', q', t') \<Longrightarrow>
    qstep srt y (y\<lparr>y_os := s', y_queue := q', y_tracker := t', y_flight := y_flight y - {#item#},
      y_quarantined := add_mset item (y_quarantined y), y_fails := (y_fails y)(Filename item := 0)\<rparr>)"
| stop: "qstep srt y (y\<lparr>y_queue := Stop (y_queue y)\<rparr>)"

definition qsys_init :: "os \<Rightarrow> path \<Rightarrow> int \<Rightarrow> tracker option \<Rightarrow> qsys" where
  "qsys_init s d m t = (case NewQueue s d m t of (s', q, t') \<Rightarrow>
     \<lparr>y_os = s', y_queue = q, y_tracker = t', y_flight = {#}, y_pushed = {#}, y_sent = {#},
      y_quarantined = {#}, y_fails = (\<lambda>_. 0)\<rparr>)"

definition qsys_inv :: "qsys \<Rightarrow> bool" where
  "qsys_inv y \<longleftrightarrow> queue_inv (y_queue y) \<and>
     y_pushed y = mset (q_items (y_queue y)) + y_flight y + y_sent y + y_quarantined y \<and>
     (\<forall>n. count (image_mset Filename (mset (q_items (y_queue y)) + y_flight y)) n \<le> 1) \<and>
     (\<forall>n. attempts_of (y_queue y) n = int (y_fails y n)) \<and>
     (\<forall>n. int (y_fails y n) < q_maxAttempts (y_queue y))"

lemma qsys_inv_init: "qsys_inv (qsys_init s d m t)"
proof -
  obtain s' q t' where n: "NewQueue s d m t = (s', q, t')" by (metis prod_cases3)
  then have "q_items q = []" "q_attempts q = Map.empty" "0 < q_maxAttempts q"
    using queue_inv_NewQueue [OF n] by (auto simp: NewQueue_def queue_inv_def dest: updateFailedCount_sel)
  with n queue_inv_NewQueue [OF n] show ?thesis
    by (simp add: qsys_inv_def qsys_init_def attempts_of_def)
qed

lemma flight_once:
  assumes "qsys_inv y" "item \<in># y_flight y"
  shows "Filename item \<notin> q_inQueue (y_queue y)"
proof
  assume "Filename item \<in> q_inQueue (y_queue y)"
  then have "Filename item \<in># image_mset Filename (mset (q_items (y_queue y)))"
    using assms(1) by (auto simp: qsys_inv_def queue_inv_def)
  then have "0 < count (image_mset Filename (mset (q_items (y_queue y)))) (Filename item)"
    by (simp only: count_greater_zero_iff)
  moreover have "Filename item \<in># image_mset Filename (y_flight y)" using assms(2) by auto
  then have "0 < count (image_mset Filename (y_flight y)) (Filename item)"
    by (simp only: count_greater_zero_iff)
  moreover have "count (image_mset Filename (mset (q_items (y_queue y)) + y_flight y)) (Filename item) \<le> 1"
    using assms(1) by (simp add: qsys_inv_def)
  ultimately show False unfolding image_mset_union count_union by linarith
qed

lemma flight_less:
  assumes "qsys_inv y" "y_flight y = add_mset item F"
  shows "count (image_mset Filename (mset (q_items (y_queue y)) + F)) n \<le> 1"
proof -
  have "count (image_mset Filename (mset (q_items (y_queue y)) + add_mset item F)) n \<le> 1"
    using assms by (simp only: qsys_inv_def)
  then show ?thesis by (simp split: if_splits)
qed

context age_sort
begin

lemma RecordFailure_retry:
  assumes "RecordFailure srt s q t item = (False, s', q', t')" "Filename item \<notin> q_inQueue q"
  shows "mset (q_items q') = add_mset item (mset (q_items q)) \<and> s' = s \<and>
    attempts_of q' = (attempts_of q)(Filename item := attempts_of q (Filename item) + 1) \<and>
    attempts_of q (Filename item) + 1 < q_maxAttempts q \<and> q_maxAttempts q' = q_maxAttempts q"
  using assms by (auto simp: RecordFailure_def srt_mset Let_def attempts_of_def fun_eq_iff split: if_splits)

lemma RecordFailure_quarantine:
  assumes "RecordFailure srt s q t item = (True, s', q', t')"
  shows "q_items q' = q_items q \<and> attempts_of q' = (attempts_of q)(Filename item := 0) \<and>
    q_maxAttempts q \<le> attempts_of q (Filename item) + 1 \<and> q_maxAttempts q' = q_maxAttempts q"
  using assms by (auto simp: RecordFailure_def Let_def attempts_of_def fun_eq_iff
      split: if_splits dest!: updateFailedCount_sel)

lemma qsys_inv_step:
  assumes "qstep srt y y'" "qsys_inv y"
  shows "qsys_inv y'"
  using assms
proof (cases rule: qstep.cases)
  case (push_ok item q' t')
  then have q': "mset (q_items q') = add_mset item (mset (q_items (y_queue y)))"
    "attempts_of q' = attempts_of (y_queue y)" "q_maxAttempts q' = q_maxAttempts (y_queue y)"
    by (auto simp: Push_def srt_mset Let_def attempts_of_def fun_eq_iff)
  have "Filename item \<notin># image_mset Filename (mset (q_items (y_queue y)) + y_flight y)"
    using push_ok assms(2) by (auto simp: qsys_inv_def queue_inv_def)
  then have "count (image_mset Filename (mset (q_items q') + y_flight y)) n \<le> 1" for n
    using assms(2) by (auto simp: q' qsys_inv_def count_eq_zero_iff)
  with push_ok assms(2) queue_inv_Push [OF _ push_ok(5)] show ?thesis
    by (auto simp: qsys_inv_def q')
next
  case (push_ignored item q' t')
  then have "q' = y_queue y" by (auto simp: Push_def split: if_splits)
  with push_ignored assms(2) show ?thesis by (simp add: qsys_inv_def)
next
  case (pop item q' t')
  then have q': "mset (q_items (y_queue y)) = add_mset item (mset (q_items q'))"
    "attempts_of q' = attempts_of (y_queue y)" "q_maxAttempts q' = q_maxAttempts (y_queue y)"
    by (auto simp: Pop_def Let_def attempts_of_def fun_eq_iff split: list.splits if_splits)
  with pop assms(2) queue_inv_Pop [OF _ pop(2)] show ?thesis by (simp add: qsys_inv_def)
next
  case (sent item)
  obtain F where F: "y_flight y = add_mset item F" using sent(2) by (metis multi_member_split)
  have "int (y_fails y n) < q_maxAttempts (y_queue y) \<and> 0 < q_maxAttempts (y_queue y)" for n
    using assms(2) by (auto simp: qsys_inv_def queue_inv_def)
  with flight_less [OF assms(2) F] sent(1) assms(2) queue_inv_RecordSuccess show ?thesis
    by (auto simp: qsys_inv_def F RecordSuccess_def attempts_of_def split: if_splits)
next
  case (retry item s' q' t')
  note q' = RecordFailure_retry [OF retry(3) flight_once [OF assms(2) retry(2)]]
  have inv: "queue_inv q'"
    using queue_inv_RecordFailure [OF _ flight_once [OF assms(2) retry(2)] retry(3)] assms(2)
    by (simp add: qsys_inv_def)
  obtain F where F: "y_flight y = add_mset item F" using retry(2) by (metis multi_member_split)
  with retry(1) assms(2) q' inv show ?thesis by (auto simp: qsys_inv_def)
next
  case (quarantine item s' q' t')
  note q' = RecordFailure_quarantine [OF quarantine(3)]
  have inv: "queue_inv q'"
    using queue_inv_RecordFailure [OF _ flight_once [OF assms(2) quarantine(2)] quarantine(3)] assms(2)
    by (simp add: qsys_inv_def)
  then have pos: "0 < q_maxAttempts q'" by (simp add: queue_inv_def)
  obtain F where F: "y_flight y = add_mset item F" using quarantine(2) by (metis multi_member_split)
  from flight_less [OF assms(2) F] quarantine(1) assms(2) q' inv pos F show ?thesis by (auto simp: qsys_inv_def)
next
  case stop
  with assms(2) queue_inv_Stop show ?thesis by (simp add: qsys_inv_def Stop_def attempts_of_def)
qed

end

section \<open>Quarantine on disk\<close>

lemma quarantine_moves_file:
  assumes wf: "fs_wf s" and quiet: "o_faults s = []" and src: "content s p = Some d"
    and dir: "list_all (\<lambda>q. ent s q = None \<or> ent s q = Some Dir) (ancestors fd)" "fd \<noteq> []"
    and tgt: "ent s (fd @ [n]) \<noteq> Some Dir"
  shows "content (snd (Rename (snd (MkdirAll s fd)) p (fd @ [n]))) = ((content s)(p := None))(fd @ [n] \<mapsto> d)"
proof -
  obtain r1 s1 where 1: "MkdirAll s fd = (r1, s1)" by fastforce
  have fd: "fd \<in> set (ancestors fd)" using dir(2) by (auto simp: ancestors_def intro!: rev_image_eqI [of "length fd - 1"])
  have tn: "fd @ [n] \<notin> set (ancestors fd)" by (auto simp: ancestors_def dest: arg_cong [of _ _ length])
  have s1: "file_at (v_ents (o_fs s1)) = file_at (v_ents (o_fs s)) \<and> v_inodes (o_fs s1) = v_inodes (o_fs s) \<and>
      is_dir s1 fd \<and> ent s1 (fd @ [n]) \<noteq> Some Dir \<and> o_faults s1 = []"
    using 1
  proof (cases rule: MkdirAll_cases)
    case (failed e)
    with dir(1) quiet show ?thesis by (auto simp: list_ex_iff list_all_iff)
  next
    case exists
    with fd tgt quiet same_fs_ent [OF exists(2)] show ?thesis
      by (auto simp: same_fs_def is_dir_def list_all_iff)
  next
    case made
    with fd tgt quiet dir(1) tn show ?thesis
      by (auto simp: fs_step_def is_dir_def ent_def list_all_iff fun_eq_iff map_add_def map_of_dirs split: option.splits)
  qed
  then have "file_at (v_ents (o_fs s1)) p \<noteq> None" using src by (auto simp: file_at_content)
  then obtain j where src1: "ent s1 p = Some (Ino j)"
    by (auto simp: file_at_def ent_def split: option.splits entry.splits)
  obtain r2 s2 where 2: "Rename s1 p (fd @ [n]) = (r2, s2)" by fastforce
  then show ?thesis
  proof (cases rule: Rename_cases)
    case (failed e)
    with s1 src1 show ?thesis by (auto simp: is_dir_def)
  next
    case (renamed i)
    then have "file_at (v_ents (o_fs s1)) p = Some i" by (simp add: file_at_def ent_def)
    then have "file_at (v_ents (o_fs s)) p = Some i" using s1 by simp
    with renamed(5) s1 src 1 2 show ?thesis
      by (auto simp: fs_step_def file_at_content inode_of_def fun_eq_iff)
  qed
qed

section \<open>Properties of the queue\<close>


text \<open>
  C32: \<^verbatim>\<open>Pop\<close> blocks exactly when the queue is empty and not stopped, reports the end exactly
  when it is empty and stopped, and otherwise hands out a file no younger file precedes, which
  is then the only one gone from the queue.
\<close>

theorem Pop_takes_oldest:
  assumes "queue_inv q"
  shows "case Pop q t of
      None \<Rightarrow> q_items q = [] \<and> \<not> q_stopped q
    | Some (None, q', t') \<Rightarrow> q_items q = [] \<and> q_stopped q \<and> q' = q \<and> t' = t
    | Some (Some i, q', t') \<Rightarrow> pending_item q (Filename i) = Some i \<and> list_all (\<lambda>j. ModTime i \<le> ModTime j) (q_items q) \<and>
        pending_item q' = (pending_item q)(Filename i := None) \<and> queue_inv q' \<and> t' = set_counts q' t"
proof (cases "q_items q")
  case Nil
  then show ?thesis by (simp add: Pop_def)
next
  case (Cons i rest)
  have "Filename i \<notin> Filename ` set rest" using assms Cons by (auto simp: queue_inv_def)
  then have "map_of (map (\<lambda>i. (Filename i, i)) rest) (Filename i) = None"
    by (auto simp: map_of_eq_None_iff)
  with assms Cons by_age.queue_inv_Pop [OF assms, of t "Some i"] show ?thesis
    by (auto simp: Pop_def pending_item_def queue_inv_def list_all_iff Let_def fun_eq_iff)
qed

text \<open>
  C20: \<^verbatim>\<open>RecordFailure\<close> of a file in flight quarantines it exactly when this failure reaches
  the limit, and then, if no system call fails, the file is moved unchanged into the quarantine
  directory, its counter is cleared and no other file is touched; before the limit the file goes
  back into the queue, at its place by age, with the counter increased, and no file is touched.
\<close>

theorem RecordFailure_retries_then_quarantines:
  assumes "age_sort srt" "queue_inv q" "Filename item \<notin> q_inQueue q" "fs_wf s" "o_faults s = []"
    and "content s (Path item) = Some d" "ent s (failedDir q @ [Filename item]) \<noteq> Some Dir"
    and "list_all (\<lambda>p. ent s p = None \<or> ent s p = Some Dir) (ancestors (failedDir q))"
    and "RecordFailure srt s q t item = (quarantined, s', q', t')"
  shows "quarantined = (q_maxAttempts q \<le> attempts_of q (Filename item) + 1) \<and> queue_inv q' \<and>
    (if quarantined
     then content s' = ((content s)(Path item := None))(failedDir q @ [Filename item] \<mapsto> d) \<and>
       q_items q' = q_items q \<and> attempts_of q' = (attempts_of q)(Filename item := 0)
     else s' = s \<and> pending_item q' = (pending_item q)(Filename item \<mapsto> item) \<and>
       attempts_of q' = (attempts_of q)(Filename item := attempts_of q (Filename item) + 1))"
proof -
  have inv: "queue_inv q'" using age_sort.queue_inv_RecordFailure [OF assms(1-3,9)] .
  show ?thesis
  proof (cases quarantined)
    case True
    note q' = age_sort.RecordFailure_quarantine [OF assms(1), of s q t item s' q' t']
    let ?s2 = "snd (Rename (snd (MkdirAll s (failedDir q))) (Path item) (failedDir q @ [Filename item]))"
    have "o_fs s' = o_fs ?s2"
      using assms(9) True
      by (auto simp: RecordFailure_def updateFailedCount_def ReadDir_def Let_def
          split: if_splits prod.splits option.splits dest!: fault_same)
    then have "content s' = content ?s2" by (rule content_cong)
    with quarantine_moves_file [OF assms(4-6,8) _ assms(7)] q' assms(9) True inv show ?thesis
      by (simp add: failedDir_def)
  next
    case False
    note q' = age_sort.RecordFailure_retry [OF assms(1) _ assms(3), of s t s' q' t']
    have "set (q_items q') = insert item (set (q_items q))"
      using q' assms(9) False by (metis (full_types) set_mset_add_mset_insert set_mset_mset)
    moreover have "Filename item \<notin> Filename ` set (q_items q)" using assms(2,3) by (simp add: queue_inv_def)
    ultimately have "pending_item q' n = ((pending_item q)(Filename item \<mapsto> item)) n" for n
      using inv assms(2) by (intro option_eqI) (auto simp: pending_item_iff queue_inv_def, metis image_eqI)
    with q' assms(9) False inv show ?thesis by auto
  qed
qed

text \<open>The results of \<open>k\<close> calls of \<^verbatim>\<open>Pop\<close> in a row.\<close>

fun pops :: "nat \<Rightarrow> queue \<Rightarrow> tracker option \<Rightarrow> FileItem option list option" where
  "pops 0 q t = Some []"
| "pops (Suc k) q t =
     (case Pop q t of None \<Rightarrow> None | Some (r, q', t') \<Rightarrow> map_option ((#) r) (pops k q' t'))"

lemma pops_stopped:
  "q_stopped q \<Longrightarrow> pops (length (q_items q) + k) q t = Some (map Some (q_items q) @ replicate k None)"
proof (induction "q_items q" arbitrary: q t)
  case Nil
  have "pops k q t = Some (replicate k None)"
    using Nil by (induction k) (simp_all add: Pop_def)
  with Nil show ?case by (metis add_0 append_Nil list.simps(8) list.size(3))
next
  case (Cons i rest)
  define q1 where "q1 = q\<lparr>q_items := rest, q_inQueue := q_inQueue q - {Filename i}\<rparr>"
  have "pops (length (q_items q1) + k) q1 (set_counts q1 t) = Some (map Some (q_items q1) @ replicate k None)"
    by (rule Cons.hyps(1)) (use Cons.prems in \<open>simp_all add: q1_def\<close>)
  with Cons.hyps(2) show ?case by (simp add: Pop_def q1_def Let_def flip: Cons.hyps(2))
qed

text \<open>
  After \<^verbatim>\<open>Stop\<close> nothing is accepted any more and no \<^verbatim>\<open>Pop\<close> blocks: repeated calls
  hand out exactly the files that were queued, oldest first, and then report the end.
\<close>

theorem Stop_drains_in_order:
  assumes "queue_inv q"
  shows "pops (Len q + k) (Stop q) t = Some (map Some (q_items q) @ replicate k None) \<and>
    sorted (map ModTime (q_items q)) \<and> Push srt (Stop q) t item = (Stop q, t)"
  using assms pops_stopped [of "Stop q" k t] by (simp add: Stop_def Len_def queue_inv_def Push_def)

text \<open>A file that was replaced while its first version was in flight, in a queue with one attempt.\<close>

definition reborn_item :: "int \<Rightarrow> FileItem" where
  "reborn_item m = \<lparr>Filename = ''a.csv'', Path = [''out'', ''a.csv''], Size = 1, ModTime = m\<rparr>"

definition reborn_queue :: queue where
  "reborn_queue = \<lparr>q_watchDir = [''out''], q_maxAttempts = 1, q_items = [], q_inQueue = {}, q_attempts = Map.empty,
     q_failedCount = 0, q_stopped = False\<rparr>"

definition empty_os :: os where
  "empty_os = \<lparr>o_fs = \<lparr>v_ents = [([''out''], Dir), ([''out'', ''a.csv''], Ino 0)], v_disk = [],
       v_inodes = (\<lambda>_. \<lparr>i_data = [5], i_synced = [5], i_mtime = 1\<rparr>)\<rparr>,
     o_hist = [], o_next = 1, o_faults = [], o_space = None, o_clock = 0, o_entropy = (\<lambda>_. []), o_draws = 0\<rparr>"

text \<open>
  The index does not survive a quarantine when the same name was pushed again while the file
  was in flight: \<^verbatim>\<open>RecordFailure\<close> removes the name from the index although the second item is
  still queued, and the next \<^verbatim>\<open>Push\<close> of that name then queues it twice.
\<close>

theorem quarantine_breaks_index:
  "\<exists>q1 q2 q3 s'. queue_inv reborn_queue \<and>
    Push (sort_key ModTime) reborn_queue None (reborn_item 2) = (q1, None) \<and> queue_inv q1 \<and>
    RecordFailure (sort_key ModTime) empty_os q1 None (reborn_item 1) = (True, s', q2, None) \<and> \<not> queue_inv q2 \<and>
    Push (sort_key ModTime) q2 None (reborn_item 2) = (q3, None) \<and> map Filename (q_items q3) = [''a.csv'', ''a.csv'']"
proof -
  define q1 where "q1 = fst (Push (sort_key ModTime) reborn_queue None (reborn_item 2))"
  define r where "r = RecordFailure (sort_key ModTime) empty_os q1 None (reborn_item 1)"
  define q2 where "q2 = fst (snd (snd r))"
  have i0: "queue_inv reborn_queue" by (simp add: queue_inv_def reborn_queue_def)
  have p1: "Push (sort_key ModTime) reborn_queue None (reborn_item 2) = (q1, None)"
    by (simp add: q1_def Push_def reborn_queue_def set_counts_def Let_def)
  have q1: "q_items q1 = [reborn_item 2]" "q_inQueue q1 = {''a.csv''}" "q_maxAttempts q1 = 1"
      "q_attempts q1 = Map.empty" "q_stopped q1 = False"
    by (simp_all add: q1_def Push_def reborn_queue_def reborn_item_def Let_def)
  have r: "fst r" "snd (snd (snd r)) = None" "q_items q2 = [reborn_item 2]" "q_inQueue q2 = {}" "q_stopped q2 = False"
    by (simp_all add: q2_def r_def RecordFailure_def updateFailedCount_def set_counts_def attempts_of_def q1
        reborn_item_def Let_def split: prod.splits sum.splits)
  then have "RecordFailure (sort_key ModTime) empty_os q1 None (reborn_item 1) = (True, fst (snd r), q2, None)"
    by (simp add: q2_def flip: r_def) (metis prod.collapse)
  moreover have "\<not> queue_inv q2" by (simp add: queue_inv_def r)
  moreover obtain q3 where "Push (sort_key ModTime) q2 None (reborn_item 2) = (q3, None)"
      "map Filename (q_items q3) = [''a.csv'', ''a.csv'']"
    by (simp add: Push_def r set_counts_def Let_def) (simp add: reborn_item_def)
  moreover have "queue_inv q1" by (rule by_age.queue_inv_Push [OF i0 p1])
  ultimately show ?thesis using i0 p1 by (intro exI conjI) assumption+
qed

section \<open>Witnesses\<close>

lemma reborn_inv: "queue_inv reborn_queue"
  by (simp add: queue_inv_def reborn_queue_def)


theorem Pop_takes_oldest_witness:
  "case Pop reborn_queue None of None \<Rightarrow> q_items reborn_queue = [] \<and> \<not> q_stopped reborn_queue | _ \<Rightarrow> False"
  using Pop_takes_oldest [OF reborn_inv, of None] by (simp add: Pop_def reborn_queue_def)

theorem RecordFailure_retries_then_quarantines_witness:
  "\<exists>s' q' t'. RecordFailure (sort_key ModTime) empty_os reborn_queue None (reborn_item 1) = (True, s', q', t') \<and>
    content s' = ((content empty_os)([''out'', ''a.csv''] := None))([''out'', ''.failed'', ''a.csv''] \<mapsto> [5])"
proof -
  obtain b s' q' t' where r: "RecordFailure (sort_key ModTime) empty_os reborn_queue None (reborn_item 1) = (b, s', q', t')"
    by (metis prod_cases4)
  have h: "Filename (reborn_item 1) \<notin> q_inQueue reborn_queue" "fs_wf empty_os" "o_faults empty_os = []"
    "content empty_os (Path (reborn_item 1)) = Some [5]"
    "ent empty_os (failedDir reborn_queue @ [Filename (reborn_item 1)]) \<noteq> Some Dir"
    "list_all (\<lambda>p. ent empty_os p = None \<or> ent empty_os p = Some Dir) (ancestors (failedDir reborn_queue))"
    by code_simp+
  from RecordFailure_retries_then_quarantines [OF by_age.age_sort_axioms reborn_inv h r] r show ?thesis
    by (auto simp: reborn_queue_def reborn_item_def attempts_of_def failedDir_def)
qed

theorem Stop_drains_in_order_witness:
  "pops (Len reborn_queue + 1) (Stop reborn_queue) None = Some [None]"
  using Stop_drains_in_order [OF reborn_inv, of 1 None] by (simp add: reborn_queue_def)

end
