(* ===== verification/Sender_Scanner.thy ===== *)
theory Sender_Scanner
  imports Sender_Queue Wire
begin

text \<open>
  The directory scanner of \<^verbatim>\<open>internal/sender/scanner.go\<close>. A scan reads the watch directory,
  updates the state it keeps per file name and pushes the files that have become stable: size and
  modification time were equal in two consecutive scans. The abstract specification \<open>observe\<close>
  follows a single name; a scan is shown to do this for all names at once.
\<close>

section \<open>State and operations\<close>

record fileScanState =
  f_size :: int
  f_modTime :: int
  f_consecutiveScans :: int
  f_isQueued :: bool

record scanner =
  sc_watchDir :: path
  sc_interval :: int
  sc_states :: "string \<rightharpoonup> fileScanState"

definition NewScanner :: "path \<Rightarrow> int \<Rightarrow> scanner" where
  "NewScanner watchDir interval =
     \<lparr>sc_watchDir = watchDir, sc_interval = (if interval \<le> 0 then 1000000000 else interval), sc_states = Map.empty\<rparr>"

text \<open>The body of the loop over the directory entries, after \<^verbatim>\<open>entry.Info()\<close>.\<close>

definition scan_file ::
  "path \<Rightarrow> string \<Rightarrow> int \<Rightarrow> int \<Rightarrow> (string \<rightharpoonup> fileScanState) \<Rightarrow> (string \<rightharpoonup> fileScanState) \<times> FileItem list"
where
  "scan_file watchDir name sz modTime states =
     (case states name of
        None \<Rightarrow>
          (states(name \<mapsto> \<lparr>f_size = sz, f_modTime = modTime, f_consecutiveScans = 1, f_isQueued = False\<rparr>), [])
      | Some state \<Rightarrow>
          if f_size state = sz \<and> f_modTime state = modTime then
            (let state1 = state\<lparr>f_consecutiveScans := f_consecutiveScans state + 1\<rparr> in
             if f_consecutiveScans state1 \<ge> 2 \<and> \<not> f_isQueued state1 then
               (states(name \<mapsto> state1\<lparr>f_isQueued := True\<rparr>),
                [\<lparr>Filename = name, Path = watchDir @ [name], Size = sz, ModTime = modTime\<rparr>])
             else (states(name \<mapsto> state1), []))
          else
            (states(name \<mapsto> state\<lparr>f_size := sz, f_modTime := modTime, f_consecutiveScans := 1\<rparr>), []))"

fun scan_entries ::
  "path \<Rightarrow> os \<Rightarrow> (string \<times> entry) list \<Rightarrow> (string \<rightharpoonup> fileScanState) \<Rightarrow> string set \<Rightarrow> FileItem list \<Rightarrow>
   os \<times> (string \<rightharpoonup> fileScanState) \<times> string set \<times> FileItem list"
where
  "scan_entries watchDir s [] states currentFiles stableFiles = (s, states, currentFiles, stableFiles)"
| "scan_entries watchDir s ((name, e) # entries) states currentFiles stableFiles =
     (if e = Dir then scan_entries watchDir s entries states currentFiles stableFiles
      else if HasPrefix name ''.'' then scan_entries watchDir s entries states currentFiles stableFiles
      else if ValidateFilename name \<noteq> None then scan_entries watchDir s entries states currentFiles stableFiles
      else (case Lstat s (watchDir @ [name]) of
              (Inl err, s1) \<Rightarrow> scan_entries watchDir s1 entries states currentFiles stableFiles
            | (Inr (sz, modTime), s1) \<Rightarrow>
                (case scan_file watchDir name sz modTime states of (states1, new) \<Rightarrow>
                   scan_entries watchDir s1 entries states1 (insert name currentFiles) (stableFiles @ new))))"

fun push_all ::
  "(FileItem list \<Rightarrow> FileItem list) \<Rightarrow> queue \<Rightarrow> tracker option \<Rightarrow> FileItem list \<Rightarrow> queue \<times> tracker option"
where
  "push_all srt q t [] = (q, t)"
| "push_all srt q t (item # items) = (case Push srt q t item of (q1, t1) \<Rightarrow> push_all srt q1 t1 items)"

definition scanOnce ::
  "(FileItem list \<Rightarrow> FileItem list) \<Rightarrow> os \<Rightarrow> scanner \<Rightarrow> queue \<Rightarrow> tracker option \<Rightarrow>
   os \<times> scanner \<times> queue \<times> tracker option"
where
  "scanOnce srt s sc q t =
     (case ReadDir s (sc_watchDir sc) of
        (Inl err, s1) \<Rightarrow> (s1, sc, q, t)
      | (Inr entries, s1) \<Rightarrow>
          (case scan_entries (sc_watchDir sc) s1 entries (sc_states sc) {} [] of
             (s2, states, currentFiles, stableFiles) \<Rightarrow>
               (let sc1 = sc\<lparr>sc_states := states |` currentFiles\<rparr>;
                    qt = push_all srt q t (srt stableFiles)
                in (s2, sc1, fst qt, snd qt))))"

definition MarkCompleted :: "scanner \<Rightarrow> string \<Rightarrow> scanner" where
  "MarkCompleted sc filename = sc\<lparr>sc_states := (sc_states sc)(filename := None)\<rparr>"

section \<open>The specification of one name\<close>

text \<open>What a scan sees of a name, and what it makes of it; the flag says that it is pushed.\<close>

definition visible :: "os \<Rightarrow> path \<Rightarrow> string \<Rightarrow> (int \<times> int) option" where
  "visible s d n =
     (if ValidateFilename n = None then
        (case ent s (d @ [n]) of
           Some (Ino i) \<Rightarrow> Some (int (length (i_data (inode_of s i))), i_mtime (inode_of s i))
         | _ \<Rightarrow> None)
      else None)"

definition observe :: "(int \<times> int) option \<Rightarrow> fileScanState option \<Rightarrow> fileScanState option \<times> bool" where
  "observe ob st =
     (case ob of
        None \<Rightarrow> (None, False)
      | Some (sz, mt) \<Rightarrow>
          (case st of
             None \<Rightarrow> (Some \<lparr>f_size = sz, f_modTime = mt, f_consecutiveScans = 1, f_isQueued = False\<rparr>, False)
           | Some f \<Rightarrow>
               if f_size f = sz \<and> f_modTime f = mt
               then (Some (f\<lparr>f_consecutiveScans := f_consecutiveScans f + 1,
                            f_isQueued := f_isQueued f \<or> 1 \<le> f_consecutiveScans f\<rparr>),
                     \<not> f_isQueued f \<and> 1 \<le> f_consecutiveScans f)
               else (Some (f\<lparr>f_size := sz, f_modTime := mt, f_consecutiveScans := 1\<rparr>), False)))"

lemma scan_file_observe:
  "scan_file d n sz mt states =
     (states(n := fst (observe (Some (sz, mt)) (states n))),
      if snd (observe (Some (sz, mt)) (states n))
      then [\<lparr>Filename = n, Path = d @ [n], Size = sz, ModTime = mt\<rparr>] else [])"
  by (auto simp: scan_file_def observe_def Let_def split: option.splits)

text \<open>The loop over entries with distinct names, in a file system where no call fails.\<close>

definition seen_item :: "os \<Rightarrow> path \<Rightarrow> string \<Rightarrow> FileItem" where
  "seen_item s d n = (case visible s d n of
     Some (sz, mt) \<Rightarrow> \<lparr>Filename = n, Path = d @ [n], Size = sz, ModTime = mt\<rparr>
   | None \<Rightarrow> \<lparr>Filename = n, Path = d @ [n], Size = 0, ModTime = 0\<rparr>)"

lemma scan_entries_spec:
  assumes "o_faults s = []" "distinct (map fst es)" "\<forall>(n, e) \<in> set es. ent s (d @ [n]) = Some e"
  shows "scan_entries d s es st cur acc =
    (s, \<lambda>n. if n \<in> fst ` set es \<and> visible s d n \<noteq> None then fst (observe (visible s d n) (st n)) else st n,
     cur \<union> {n \<in> fst ` set es. visible s d n \<noteq> None},
     acc @ map (seen_item s d) (filter (\<lambda>n. visible s d n \<noteq> None \<and> snd (observe (visible s d n) (st n))) (map fst es)))"
  using assms
proof (induction es arbitrary: st cur acc)
  case Nil
  then show ?case by simp
next
  case (Cons x es)
  obtain n e where x: "x = (n, e)" by fastforce
  have ent: "ent s (d @ [n]) = Some e" and nin: "n \<notin> fst ` set es" using Cons.prems x by auto
  have IH: "scan_entries d s es st cur acc = (s, \<lambda>n. if n \<in> fst ` set es \<and> visible s d n \<noteq> None then fst (observe (visible s d n) (st n)) else st n,
     cur \<union> {n \<in> fst ` set es. visible s d n \<noteq> None},
     acc @ map (seen_item s d) (filter (\<lambda>n. visible s d n \<noteq> None \<and> snd (observe (visible s d n) (st n))) (map fst es)))" for st cur acc
    using Cons.IH Cons.prems by simp
  have hidden: "ValidateFilename n \<noteq> None" if "HasPrefix n ''.''"
    using that valid_name_first name_char_no_sep(3) by (cases n) (force simp: HasPrefix_def)+
  show ?case
  proof (cases "visible s d n")
    case None
    then have "e = Dir \<or> HasPrefix n ''.'' \<or> ValidateFilename n \<noteq> None"
      using ent by (auto simp: visible_def split: if_splits entry.splits)
    then have "scan_entries d s (x # es) st cur acc = scan_entries d s es st cur acc"
      by (auto simp: x)
    with None show ?thesis by (auto simp: IH x fun_eq_iff)
  next
    case (Some ob)
    then obtain i where e: "e = Ino i" and v: "ValidateFilename n = None"
      and ob: "ob = (int (length (i_data (inode_of s i))), i_mtime (inode_of s i))"
      using ent by (auto simp: visible_def split: if_splits entry.splits)
    have "Lstat s (d @ [n]) = (Inr ob, s)" using ent e ob Cons.prems(1) by (simp add: Lstat_def fault_quiet)
    moreover have "\<not> HasPrefix n ''.''" using hidden v by auto
    ultimately have step: "scan_entries d s (x # es) st cur acc =
      scan_entries d s es (st(n := fst (observe (Some ob) (st n)))) (insert n cur)
        (acc @ (if snd (observe (Some ob) (st n)) then [seen_item s d n] else []))"
      using Some by (cases ob) (simp add: x e v scan_file_observe seen_item_def)
    have rest: "filter (\<lambda>m. visible s d m \<noteq> None \<and> snd (observe (visible s d m) ((st(n := y)) m))) (map fst es) =
      filter (\<lambda>m. visible s d m \<noteq> None \<and> snd (observe (visible s d m) (st m))) (map fst es)" for y
      using nin by (intro filter_cong) auto
    show ?thesis
      unfolding step IH rest using Some nin by (cases ob) (auto simp: x fun_eq_iff)
  qed
qed

section \<open>A whole scan\<close>

definition offered :: "os \<Rightarrow> scanner \<Rightarrow> FileItem list" where
  "offered s sc = map (seen_item s (sc_watchDir sc))
     (filter (\<lambda>n. visible s (sc_watchDir sc) n \<noteq> None \<and>
        snd (observe (visible s (sc_watchDir sc) n) (sc_states sc n))) (names_in s (sc_watchDir sc)))"

lemma scanOnce_spec:
  assumes "fs_wf s" "o_faults s = []" "is_dir s (sc_watchDir sc)"
  shows "scanOnce srt s sc q t = (s,
    sc\<lparr>sc_states := \<lambda>n. fst (observe (visible s (sc_watchDir sc) n) (sc_states sc n))\<rparr>,
    push_all srt q t (srt (offered s sc)))"
proof -
  let ?d = "sc_watchDir sc" and ?es = "map (\<lambda>n. (n, the (ent s (sc_watchDir sc @ [n])))) (names_in s (sc_watchDir sc))"
  have rd: "ReadDir s ?d = (Inr ?es, s)" using assms by (simp add: ReadDir_def fault_quiet)
  have names: "map fst ?es = names_in s ?d" "fst ` set ?es = set (names_in s ?d)"
    by (simp_all add: comp_def image_comp)
  have "distinct (map fst ?es)" by (simp add: comp_def names_in_def)
  moreover have "\<forall>(n, e) \<in> set ?es. ent s (?d @ [n]) = Some e"
    using names_in_ent [OF assms(1)] by auto
  ultimately have spec: "scan_entries ?d s ?es (sc_states sc) {} [] =
    (s, \<lambda>n. if n \<in> set (names_in s ?d) \<and> visible s ?d n \<noteq> None then fst (observe (visible s ?d n) (sc_states sc n)) else sc_states sc n,
     {n \<in> set (names_in s ?d). visible s ?d n \<noteq> None}, offered s sc)"
    using scan_entries_spec [OF assms(2)] unfolding offered_def by (simp only: names append_Nil Un_empty_left)
  have "n \<in> set (names_in s ?d)" if "visible s ?d n \<noteq> None" for n
    using that names_in_ent [OF assms(1)] by (auto simp: visible_def split: if_splits option.splits)
  moreover have "fst (observe None x) = None" for x by (simp add: observe_def)
  ultimately have "(\<lambda>n. if n \<in> set (names_in s ?d) \<and> visible s ?d n \<noteq> None then fst (observe (visible s ?d n) (sc_states sc n)) else sc_states sc n)
      |` {n \<in> set (names_in s ?d). visible s ?d n \<noteq> None} = (\<lambda>n. fst (observe (visible s ?d n) (sc_states sc n)))"
    unfolding fun_eq_iff restrict_map_def by (metis (mono_tags, lifting) mem_Collect_eq)
  with rd spec show ?thesis by (simp add: scanOnce_def)
qed

lemma seen_item_name: "Filename (seen_item s d n) = n"
  by (simp add: seen_item_def split: option.splits prod.splits)

lemma distinct_offered: "distinct (map Filename (offered s sc))"
proof -
  have "map Filename (offered s sc) = filter (\<lambda>n. visible s (sc_watchDir sc) n \<noteq> None \<and>
      snd (observe (visible s (sc_watchDir sc) n) (sc_states sc n))) (names_in s (sc_watchDir sc))"
    by (simp add: offered_def comp_def seen_item_name)
  then show ?thesis by (simp add: names_in_def)
qed

context age_sort
begin

lemma Push_pending:
  assumes "queue_inv q" "\<not> q_stopped q" "Push srt q t item = (q', t')"
  shows "queue_inv q' \<and> \<not> q_stopped q' \<and>
    pending_item q' n = (case pending_item q n of Some i \<Rightarrow> Some i | None \<Rightarrow> if n = Filename item then Some item else None)"
proof -
  have inv: "queue_inv q'" by (rule queue_inv_Push [OF assms(1,3)])
  have d: "distinct (map Filename (q_items q))" "distinct (map Filename (q_items q'))"
    using assms(1) inv by (simp_all add: queue_inv_def)
  have idx: "Filename item \<in> q_inQueue q \<longleftrightarrow> pending_item q (Filename item) \<noteq> None"
    using assms(1) by (auto simp: queue_inv_def pending_item_def map_of_eq_None_iff image_image)
  show ?thesis
  proof (cases "Filename item \<in> q_inQueue q")
    case True
    with assms inv idx show ?thesis by (auto simp: Push_def split: option.splits)
  next
    case False
    with assms have q': "set (q_items q') = insert item (set (q_items q))" "\<not> q_stopped q'"
      by (auto simp: Push_def Let_def srt_set)
    note iff = pending_item_iff [OF d(1)] pending_item_iff [OF d(2)]
    have "pending_item q' n = (case pending_item q n of Some i \<Rightarrow> Some i | None \<Rightarrow> if n = Filename item then Some item else None)"
    proof (cases "pending_item q n")
      case (Some j)
      then have "pending_item q' n = Some j" using iff q' by simp
      with Some show ?thesis by simp
    next
      case None
      have "pending_item q' n = Some j \<longleftrightarrow> n = Filename item \<and> j = item" for j
        using None iff(1) [of n j] q'(1) unfolding iff(2) by auto
      then show ?thesis using None by (intro option_eqI) auto
    qed
    then show ?thesis using inv q' by simp
  qed
qed

lemma push_all_pending:
  assumes "queue_inv q" "\<not> q_stopped q" "distinct (map Filename items)" "push_all srt q t items = (q', t')"
  shows "queue_inv q' \<and> \<not> q_stopped q' \<and> pending_item q' n =
    (case pending_item q n of Some i \<Rightarrow> Some i | None \<Rightarrow> map_of (map (\<lambda>i. (Filename i, i)) items) n)"
  using assms
proof (induction items arbitrary: q t)
  case Nil
  then show ?case by (simp split: option.splits)
next
  case (Cons i items)
  obtain q1 t1 where p: "Push srt q t i = (q1, t1)" by fastforce
  note one = Push_pending [OF Cons.prems(1,2) p]
  with Cons.IH [of q1 t1] Cons.prems p show ?case
    by (auto split: option.splits)
qed

end

section \<open>Properties of the scanner\<close>

definition scanner_inv :: "scanner \<Rightarrow> bool" where
  "scanner_inv sc \<longleftrightarrow> (\<forall>f \<in> ran (sc_states sc). 1 \<le> f_consecutiveScans f)"

definition queued :: "scanner \<Rightarrow> string \<Rightarrow> bool" where
  "queued sc n = (case sc_states sc n of None \<Rightarrow> False | Some f \<Rightarrow> f_isQueued f)"

lemma scanner_inv_get: "scanner_inv sc \<Longrightarrow> sc_states sc n = Some f \<Longrightarrow> 1 \<le> f_consecutiveScans f"
  by (auto simp: scanner_inv_def intro: ranI)

lemma scanner_inv_New: "scanner_inv (NewScanner d i)"
  by (simp add: scanner_inv_def NewScanner_def)

lemma scanner_inv_scanOnce:
  assumes "scanner_inv sc" "fs_wf s" "o_faults s = []" "is_dir s (sc_watchDir sc)" "scanOnce srt s sc q t = (s', sc', q', t')"
  shows "scanner_inv sc'"
proof -
  have "sc_states sc' = (\<lambda>n. fst (observe (visible s (sc_watchDir sc) n) (sc_states sc n)))"
    using scanOnce_spec [OF assms(2-4), of srt q t] assms(5) by auto
  moreover have "1 \<le> f_consecutiveScans f" if "fst (observe ob st) = Some f" "\<forall>g. st = Some g \<longrightarrow> 1 \<le> f_consecutiveScans g" for ob st f
    using that by (auto simp: observe_def split: option.splits prod.splits if_splits)
  ultimately show ?thesis
    using scanner_inv_get [OF assms(1)] unfolding scanner_inv_def ran_def by fastforce
qed

lemma after_scan:
  assumes "scanner_inv sc" "st1 = fst (observe v1 (sc_states sc n))"
  shows "case v1 of None \<Rightarrow> st1 = None
    | Some (sz, mt) \<Rightarrow> \<exists>f. st1 = Some f \<and> f_size f = sz \<and> f_modTime f = mt \<and> 1 \<le> f_consecutiveScans f"
  using assms scanner_inv_get [OF assms(1), of n]
  by (fastforce simp: observe_def split: option.splits prod.splits)

fun mark_all :: "scanner \<Rightarrow> string list \<Rightarrow> scanner" where
  "mark_all sc [] = sc"
| "mark_all sc (n # ns) = mark_all (MarkCompleted sc n) ns"

lemma mark_all_states: "sc_states (mark_all sc ns) n = (if n \<in> set ns then None else sc_states sc n)"
  by (induction ns arbitrary: sc) (simp_all add: MarkCompleted_def)

lemma mark_all_watchDir [simp]: "sc_watchDir (mark_all sc ns) = sc_watchDir sc"
  by (induction ns arbitrary: sc) (simp_all add: MarkCompleted_def)

lemma second_scan:
  assumes "scanner_inv sc" "st1 = (if done then None else fst (observe v1 (sc_states sc n)))"
  shows "snd (observe v2 st1) \<longleftrightarrow> v2 \<noteq> None \<and> v1 = v2 \<and> \<not> done \<and> \<not> (case st1 of None \<Rightarrow> False | Some f \<Rightarrow> f_isQueued f)"
    and "(case fst (observe v2 st1) of None \<Rightarrow> False | Some f \<Rightarrow> f_isQueued f) \<longleftrightarrow>
      v2 \<noteq> None \<and> \<not> done \<and> ((case st1 of None \<Rightarrow> False | Some f \<Rightarrow> f_isQueued f) \<or> v1 = v2)"
  using after_scan [OF assms(1), of "fst (observe v1 (sc_states sc n))" v1 n] assms(2)
  by (auto simp: observe_def [of v2] split: option.splits prod.splits if_splits)

text \<open>
  C16: the two-scan gate. Take two consecutive scans of the watch directory, with any changes of
  the directory, any queue operations and any completed transfers between them. The second scan
  adds a file to the queue exactly when it is a regular file with a transferable name, was seen by
  both scans with the same size and modification time, was not completed in between, has not been
  handed over already and its name is not queued; nothing else enters or leaves the queue. From
  then on the name counts as handed over until it disappears or is completed.
\<close>

theorem two_scan_stability:
  assumes "age_sort srt" "scanner_inv sc" "queue_inv q1" "\<not> q_stopped q1"
    and "fs_wf s1" "o_faults s1 = []" "is_dir s1 (sc_watchDir sc)"
    and "fs_wf s2" "o_faults s2 = []" "is_dir s2 (sc_watchDir sc)"
    and "scanOnce srt s1 sc q t = (s1', sc1, q', t')"
    and "scanOnce srt s2 (mark_all sc1 completed) q1 t1 = (s2', sc2, q2, t2)"
  shows "queue_inv q2 \<and>
    pending_item q2 n = (case pending_item q1 n of
        Some i \<Rightarrow> Some i
      | None \<Rightarrow> if visible s2 (sc_watchDir sc) n \<noteq> None \<and> visible s1 (sc_watchDir sc) n = visible s2 (sc_watchDir sc) n \<and>
                  n \<notin> set completed \<and> \<not> queued sc1 n
                then Some (seen_item s2 (sc_watchDir sc) n) else None) \<and>
    queued sc2 n = (visible s2 (sc_watchDir sc) n \<noteq> None \<and> n \<notin> set completed \<and>
      (queued sc1 n \<or> visible s1 (sc_watchDir sc) n = visible s2 (sc_watchDir sc) n))"
proof -
  let ?d = "sc_watchDir sc" and ?m = "mark_all sc1 completed"
  have sc1: "sc_states sc1 = (\<lambda>n. fst (observe (visible s1 ?d n) (sc_states sc n)))" "sc_watchDir sc1 = ?d"
    using scanOnce_spec [OF assms(5-7), of srt q t] assms(11) by auto
  have two: "sc_states sc2 = (\<lambda>n. fst (observe (visible s2 ?d n) (sc_states ?m n)))"
    "push_all srt q1 t1 (srt (offered s2 ?m)) = (q2, t2)"
    using scanOnce_spec [of s2 ?m srt q1 t1] assms(8-10,12) sc1(2) by auto
  define st1 where "st1 = sc_states ?m n"
  have st1: "st1 = (if n \<in> set completed then None else fst (observe (visible s1 ?d n) (sc_states sc n)))"
    by (simp add: st1_def mark_all_states sc1)
  have q: "queued sc1 n = (case st1 of None \<Rightarrow> False | Some f \<Rightarrow> f_isQueued f)" if "n \<notin> set completed"
    using that by (simp add: queued_def st1_def mark_all_states)
  let ?push = "visible s2 ?d n \<noteq> None \<and> snd (observe (visible s2 ?d n) st1)"
  have dist: "distinct (map Filename (srt (offered s2 ?m)))"
    using age_sort.srt_names [OF assms(1)] distinct_offered by blast
  have "map_of (map (\<lambda>i. (Filename i, i)) (srt (offered s2 ?m))) n = Some i \<longleftrightarrow> ?push \<and> i = seen_item s2 ?d n" for i
  proof -
    have "n \<in> set (names_in s2 ?d)" if "visible s2 ?d n \<noteq> None"
      using that names_in_ent [OF assms(8)] by (auto simp: visible_def split: if_splits option.splits)
    with dist show ?thesis
      by (auto simp: map_of_eq_Some_iff comp_def age_sort.srt_set [OF assms(1)] offered_def sc1(2) seen_item_name st1_def image_image)
  qed
  then have "map_of (map (\<lambda>i. (Filename i, i)) (srt (offered s2 ?m))) n = (if ?push then Some (seen_item s2 ?d n) else None)"
    by (intro option_eqI) auto
  with age_sort.push_all_pending [OF assms(1,3,4) dist two(2), of n] second_scan [OF assms(2) st1] q two(1)
  show ?thesis by (auto simp: queued_def st1_def split: option.splits)
qed

theorem two_scan_stability_witness:
  "\<exists>s1 sc1 q t s2 sc2 q2 t2. scanOnce (sort_key ModTime) empty_os (NewScanner [''out''] 0) reborn_queue None = (s1, sc1, q, t) \<and>
    scanOnce (sort_key ModTime) empty_os (mark_all sc1 []) reborn_queue None = (s2, sc2, q2, t2) \<and>
    pending_item q2 ''a.csv'' = Some (seen_item empty_os [''out''] ''a.csv'') \<and> queued sc2 ''a.csv''"
proof -
  let ?sc = "NewScanner [''out''] 0"
  obtain s1 sc1 q t where 1: "scanOnce (sort_key ModTime) empty_os ?sc reborn_queue None = (s1, sc1, q, t)"
    by (metis prod_cases4)
  obtain s2 sc2 q2 t2 where 2: "scanOnce (sort_key ModTime) empty_os (mark_all sc1 []) reborn_queue None = (s2, sc2, q2, t2)"
    by (metis prod_cases4)
  have h: "fs_wf empty_os" "o_faults empty_os = []" "is_dir empty_os (sc_watchDir ?sc)" by code_simp+
  have v: "visible empty_os [''out''] ''a.csv'' = Some (1, 1)" by code_simp
  have "\<not> queued sc1 ''a.csv''"
    using scanOnce_spec [OF h, of "sort_key ModTime" reborn_queue None] 1 v
    by (auto simp: queued_def NewScanner_def observe_def)
  moreover have "pending_item reborn_queue ''a.csv'' = None" "\<not> q_stopped reborn_queue"
    by (simp_all add: pending_item_def reborn_queue_def)
  ultimately show ?thesis
    using two_scan_stability [OF by_age.age_sort_axioms scanner_inv_New reborn_inv _ h h 1 2, of "''a.csv''"] v 1 2
    by (auto simp: NewScanner_def)
qed

end
