(* ===== verification/Sender_Client.thy ===== *)
theory Sender_Client
  imports Sender_Scanner Wire_Conn
begin

text \<open>
  The sending workers of \<^verbatim>\<open>internal/sender/client.go\<close>: dialing, transferring one file over the
  persistent connection, the action after the commit, and one iteration of the worker loop as a
  function on the file system, the queue, the scanner, the tracker and the worker's connection.
  What the reads of the source file deliver is given by \<open>rdf\<close>, applied to the content at the
  time of \<^verbatim>\<open>os.Open\<close>: another process may still be writing the file, or a read may fail.
\<close>

section \<open>Reading a file\<close>

definition File_Read :: "(byte list \<times> error) reader" where
  "File_Read = (\<lambda>(bs, e) n. if bs = [] then ([], Some e, (bs, e)) else (take n bs, None, (drop n bs, e)))"

interpretation file_r: go_reader File_Read "\<lambda>x. x" "\<lambda>x. length (fst x)" snd
  by unfold_locales (auto simp: File_Read_def split: prod.splits if_splits)

interpretation send: go_pipe File_Read "\<lambda>x. x" "\<lambda>x. length (fst x)" snd "DeadlineConn_Write \<tau>" c_sent "timed_room \<tau>" for \<tau>
  by unfold_locales

interpretation timed_fed: go_fed "DeadlineConn_Read \<tau>" "conn_stream \<tau>" conn_rank conn_frame pending for \<tau>
  by unfold_locales (rule conn_Read_pending)

section \<open>The client pool\<close>

record ClientPool =
  p_watchDir :: path
  p_targetAddr :: string
  p_certFile :: string
  p_keyFile :: string
  p_allowedReceiverFP :: "string list"
  p_parallel :: int
  p_afterAction :: string

definition NewClientPool ::
  "path \<Rightarrow> string \<Rightarrow> string \<Rightarrow> string \<Rightarrow> string list \<Rightarrow> int \<Rightarrow> string \<Rightarrow> ClientPool"
where
  "NewClientPool watchDir targetAddr certFile keyFile allowedReceiverFP nparallel afterAction =
     \<lparr>p_watchDir = watchDir, p_targetAddr = targetAddr, p_certFile = certFile, p_keyFile = keyFile,
      p_allowedReceiverFP = allowedReceiverFP, p_parallel = (if nparallel \<le> 0 then 1 else nparallel),
      p_afterAction = (if afterAction = '''' then ''archive'' else afterAction)\<rparr>"

text \<open>
  The results of the TLS configuration, of the TCP dial and of the handshake are arguments.
\<close>

definition dialPersistent ::
  "ClientPool \<Rightarrow> error option \<Rightarrow> error + conn \<Rightarrow> error option \<Rightarrow> error + conn"
where
  "dialPersistent p tlsCfg dial handshake =
     (case tlsCfg of
        Some err \<Rightarrow> Inl (Wrap ''client tls config error: '' err '''')
      | None \<Rightarrow>
          (case dial of
             Inl err \<Rightarrow> Inl (Wrap (''dial failed to '' @ p_targetAddr p @ '': '') err '''')
           | Inr rawConn \<Rightarrow>
               (let tlsConn = SetDeadline rawConn (c_clock rawConn + HandshakeTimeout) in
                case handshake of
                  Some err \<Rightarrow> Inl (Wrap ''tls handshake failed: '' err '''')
                | None \<Rightarrow> Inr tlsConn)))"

text \<open>\<^verbatim>\<open>f.Stat()\<close> of an open file, and what reading it delivers; a directory cannot be read.\<close>

definition File_Stat :: "os \<Rightarrow> entry \<Rightarrow> (error + int) \<times> os" where
  "File_Stat s en =
     (case fault s of
        (Some e, s1) \<Rightarrow> (Inl (Wrap ''stat: '' e ''''), s1)
      | (None, s1) \<Rightarrow>
          (Inr (case en of Dir \<Rightarrow> 4096 | Ino i \<Rightarrow> int (length (i_data (inode_of s1 i)))), s1))"

definition file_stream :: "(byte list \<Rightarrow> byte list \<times> error) \<Rightarrow> os \<Rightarrow> entry \<Rightarrow> byte list \<times> error" where
  "file_stream rdf s en = (case en of Dir \<Rightarrow> ([], Wrap ''read: '' EISDIR '''') | Ino i \<Rightarrow> rdf (i_data (inode_of s i)))"

definition transferFile ::
  "(byte list \<Rightarrow> byte list \<times> error) \<Rightarrow> os \<Rightarrow> conn \<Rightarrow> FileItem \<Rightarrow> (error option \<times> os \<times> conn) option"
where
  "transferFile rdf s conn item =
     (case Open s (Path item) of
        (Inl err, s1) \<Rightarrow> Some (Some (Wrap ''failed to open source file: '' err ''''), s1, conn)
      | (Inr f, s1) \<Rightarrow>
     (case File_Stat s1 f of
        (Inl err, s2) \<Rightarrow> Some (Some (Wrap ''failed to stat source file: '' err ''''), snd (File_Close s2), conn)
      | (Inr sz, s2) \<Rightarrow>
     (let payloadSize = (of_int sz :: u64); s3 = snd (File_Close s2) in
      case WriteRequestHeader (DeadlineConn_Write ReadWriteTimeout) conn (Filename item) payloadSize of
        (Some err, c1) \<Rightarrow> Some (Some (Wrap ''failed to write header: '' err ''''), s3, c1)
      | (None, c1) \<Rightarrow>
     (case SendStream (DeadlineConn_Write ReadWriteTimeout) File_Read c1 (file_stream rdf s2 f) payloadSize of
        None \<Rightarrow> None
      | Some (_, Some err, _, c2) \<Rightarrow> Some (Some (Wrap ''failed to stream payload: '' err ''''), s3, c2)
      | Some (_, None, _, c2) \<Rightarrow>
     (case ReadResponse (DeadlineConn_Read ReadWriteTimeout) c2 of
        None \<Rightarrow> None
      | Some (Some err, c3) \<Rightarrow> Some (Some (Wrap ''receiver response error: '' err ''''), s3, c3)
      | Some (None, c3) \<Rightarrow> Some (None, s3, c3))))))"

definition postCommit :: "ClientPool \<Rightarrow> os \<Rightarrow> FileItem \<Rightarrow> error option \<times> os" where
  "postCommit p s item =
     (if p_afterAction p = ''delete'' then Remove s (Path item)
      else
        (let sentDir = p_watchDir p @ [''.sent''] in
         case MkdirAll s sentDir of
           (Some err, s1) \<Rightarrow> (Some (Wrap ''failed to create .sent dir: '' err ''''), s1)
         | (None, s1) \<Rightarrow> Rename s1 (Path item) (sentDir @ [Filename item])))"

section \<open>The worker loop\<close>

text \<open>
  The state of one worker and the objects it shares. An iteration is given the results of the
  environment it needs: whether a stop was requested, the outcome of a dial if one is made, what
  the source file delivers, and the time. It returns \<open>None\<close> when it blocks in \<^verbatim>\<open>Pop\<close>, and
  otherwise whether the loop goes on.
\<close>

record worker =
  w_os :: os
  w_queue :: queue
  w_scanner :: "scanner option"
  w_tracker :: "tracker option"
  w_conn :: "conn option"

definition worker_iter ::
  "(FileItem list \<Rightarrow> FileItem list) \<Rightarrow> ClientPool \<Rightarrow> bool \<Rightarrow> error + conn \<Rightarrow>
   (byte list \<Rightarrow> byte list \<times> error) \<Rightarrow> int \<Rightarrow> worker \<Rightarrow> (bool \<times> worker) option"
where
  "worker_iter srt p stop dialed rdf now w =
     (if stop then Some (False, w)
      else
     (case Pop (w_queue w) (w_tracker w) of
        None \<Rightarrow> None
      | Some (None, q, t) \<Rightarrow> Some (False, w)
      | Some (Some item, q, t) \<Rightarrow>
     (case (case w_conn w of Some c \<Rightarrow> Inr c | None \<Rightarrow> dialed) of
        Inl err \<Rightarrow>
          (let t1 = map_option (Tracker_RecordError now) t in
           case RecordFailure srt (w_os w) q t1 item of (_, s1, q1, t2) \<Rightarrow>
             Some (True, w\<lparr>w_os := s1, w_queue := q1, w_tracker := t2, w_conn := None\<rparr>))
      | Inr conn \<Rightarrow>
     (case transferFile rdf (w_os w) conn item of
        None \<Rightarrow> None
      | Some (Some err, s1, c1) \<Rightarrow>
          (let t1 = map_option (Tracker_RecordError now) t in
           case RecordFailure srt s1 q t1 item of (quarantined, s2, q1, t2) \<Rightarrow>
             Some (True, w\<lparr>w_os := s2, w_queue := q1, w_tracker := t2, w_conn := None,
               w_scanner := (if quarantined then map_option (\<lambda>sc. MarkCompleted sc (Filename item)) (w_scanner w)
                             else w_scanner w)\<rparr>))
      | Some (None, s1, c1) \<Rightarrow>
          (let s2 = snd (postCommit p s1 item) in
           Some (True, w\<lparr>w_os := s2, w_queue := RecordSuccess q (Filename item),
             w_scanner := map_option (\<lambda>sc. MarkCompleted sc (Filename item)) (w_scanner w),
             w_tracker := map_option (Tracker_RecordSuccess now (of_int (Size item))) t, w_conn := Some c1\<rparr>))))))"

section \<open>Transfers\<close>

lemma transferFile_returns: "\<exists>r s' c'. transferFile rdf s c item = Some (r, s', c')"
proof -
  obtain r1 s1 where 1: "Open s (Path item) = (r1, s1)" by fastforce
  show ?thesis
  proof (cases r1)
    case (Inr f)
    obtain r2 s2 where 2: "File_Stat s1 f = (r2, s2)" by fastforce
    show ?thesis
    proof (cases r2)
      case r2: (Inr sz)
      obtain r3 c1 where 3: "WriteRequestHeader (DeadlineConn_Write ReadWriteTimeout) c (Filename item) (of_int sz) = (r3, c1)"
        by fastforce
      obtain chk r4 fd c2 where 4: "SendStream (DeadlineConn_Write ReadWriteTimeout) File_Read c1 (file_stream rdf s2 f) (of_int sz)
          = Some (chk, r4, fd, c2)"
        using send.SendStream_returns [of ReadWriteTimeout c1 "file_stream rdf s2 f" "of_int sz"] by blast
      obtain r5 c3 where 5: "ReadResponse (DeadlineConn_Read ReadWriteTimeout) c2 = Some (r5, c3)"
        using timed.ReadResponse_returns by blast
      from 1 2 3 4 5 Inr r2 show ?thesis
        by (cases r3; cases r4; cases r5) (auto simp: transferFile_def Let_def)
    qed (use 1 2 Inr in \<open>simp add: transferFile_def\<close>)
  qed (use 1 in \<open>simp add: transferFile_def\<close>)
qed

lemma conn_Write_pending: "DeadlineConn_Write \<tau> c b = (n, e, c') \<Longrightarrow> pending c' = pending c"
  by (auto simp: DeadlineConn_Write_def conn_Write_def SetWriteDeadline_def pending_def split: if_splits option.splits)

lemma WriteRequestHeader_sent:
  assumes "WriteRequestHeader (DeadlineConn_Write \<tau>) c name sz = (None, c')"
  shows "ValidateFilename name = None \<and> c_sent c' = c_sent c @ header_bytes name sz \<and> pending c' = pending c"
proof -
  from assms have v: "ValidateFilename name = None" by (auto simp: WriteRequestHeader_def split: option.splits)
  with assms obtain n where "DeadlineConn_Write \<tau> c (header_bytes name sz) = (n, None, c')"
    by (auto simp: WriteRequestHeader_valid split: prod.splits)
  with v timed_w.write_ok conn_Write_pending show ?thesis by blast
qed

lemma same_fs_File_Close: "same_fs s (snd (File_Close s))"
  by (metis File_Close_cases prod.collapse)

lemma File_Stat_same: "File_Stat s f = (r, s') \<Longrightarrow> same_fs s s'"
  by (cases rule: fault_cases [of s]) (auto simp: File_Stat_def)

lemma same_fs_trans: "same_fs a b \<Longrightarrow> same_fs b c \<Longrightarrow> same_fs a c"
  by (simp add: same_fs_def)

lemma transferFile_ok:
  assumes ok: "transferFile rdf s c item = Some (None, s', c')"
  obtains d p where "content s (Path item) = Some d" "rdf d = (p, EOF)" "ValidateFilename (Filename item) = None"
    "c_sent c' = c_sent c @ frame_bytes (Filename item) p" "pending c = AckByte # pending c'"
    "same_fs s s'" "(of_nat (length p) :: u64) = of_nat (length d)"
proof -
  obtain f s1 where 1: "Open s (Path item) = (Inr f, s1)"
    using ok by (auto simp: transferFile_def split: prod.splits sum.splits)
  obtain sz s2 where 2: "File_Stat s1 f = (Inr sz, s2)"
    using ok 1 by (auto simp: transferFile_def split: prod.splits sum.splits)
  obtain c1 where 3: "WriteRequestHeader (DeadlineConn_Write ReadWriteTimeout) c (Filename item) (of_int sz) = (None, c1)"
    using ok 1 2 by (auto simp: transferFile_def Let_def split: prod.splits option.splits)
  obtain chk fd c2 where 4: "SendStream (DeadlineConn_Write ReadWriteTimeout) File_Read c1 (file_stream rdf s2 f) (of_int sz)
      = Some (chk, None, fd, c2)"
    using ok 1 2 3 by (auto simp: transferFile_def Let_def split: prod.splits option.splits)
  have 5: "ReadResponse (DeadlineConn_Read ReadWriteTimeout) c2 = Some (None, c')" "s' = snd (File_Close s2)"
    using ok 1 2 3 4 by (auto simp: transferFile_def Let_def split: prod.splits option.splits)
  obtain p where p: "file_stream rdf s2 f = (p, EOF)" "(of_nat (length p) :: u64) = of_int sz"
      "c_sent c2 = c_sent c1 @ p @ sha256 p"
    using send.SendStream_sound [OF 4] by (metis prod.collapse)
  have sent: "c_sent c' = c_sent c2"
    using timed.ReadResponse_returns [of ReadWriteTimeout c2] 5(1) by (auto simp: conn_frame_def)
  have pend2: "pending c2 = pending c1"
    by (rule SendStream_invariant [where Q = "\<lambda>x. pending x = pending c1", OF 4]) (auto dest: conn_Write_pending)
  have pend: "pending c2 = AckByte # pending c'" by (rule timed_fed.ReadResponse_consumes [OF 5(1)])
  from p(1) obtain i where f: "f = Ino i" by (cases f) (auto simp: file_stream_def)
  have same: "same_fs s s1" using 1 by (rule Open_cases)
  have ent: "ent s (Path item) = Some (Ino i)"
    using 1 f same_fs_ent [OF same] by (auto simp: Open_def split: prod.splits option.splits if_splits)
  note st = File_Stat_same [OF 2]
  have in2: "inode_of s2 i = inode_of s i" using same st same_fs_ent by metis
  have "of_int sz = (of_nat (length (i_data (inode_of s i))) :: u64)"
    using 2 f in2 by (auto simp: File_Stat_def split: prod.splits option.splits)
  with ent p f in2 WriteRequestHeader_sent [OF 3] sent pend pend2 same st 5(2) same_fs_File_Close [of s2] show thesis
    by (intro that [of "i_data (inode_of s i)" p])
       (auto simp: content_def file_stream_def frame_bytes_def intro: same_fs_trans)
qed

section \<open>The outcomes of an iteration\<close>

lemma worker_iter_cases [consumes 1, case_names ended undialed failed sent]:
  assumes "worker_iter srt p stop dialed rdf now w = Some (go, w')"
  obtains (ended) "\<not> go" "w' = w" "stop \<or> (\<exists>q t. Pop (w_queue w) (w_tracker w) = Some (None, q, t))"
  | (undialed) item q t err b s1 q1 t1 where "go" "\<not> stop" "Pop (w_queue w) (w_tracker w) = Some (Some item, q, t)"
      "w_conn w = None" "dialed = Inl err"
      "RecordFailure srt (w_os w) q (map_option (Tracker_RecordError now) t) item = (b, s1, q1, t1)"
      "w' = w\<lparr>w_os := s1, w_queue := q1, w_tracker := t1, w_conn := None\<rparr>"
  | (failed) item q t c err s1 c1 b s2 q1 t1 where "go" "\<not> stop" "Pop (w_queue w) (w_tracker w) = Some (Some item, q, t)"
      "(case w_conn w of Some c \<Rightarrow> Inr c | None \<Rightarrow> dialed) = Inr c"
      "transferFile rdf (w_os w) c item = Some (Some err, s1, c1)"
      "RecordFailure srt s1 q (map_option (Tracker_RecordError now) t) item = (b, s2, q1, t1)"
      "w' = w\<lparr>w_os := s2, w_queue := q1, w_tracker := t1, w_conn := None,
         w_scanner := (if b then map_option (\<lambda>sc. MarkCompleted sc (Filename item)) (w_scanner w) else w_scanner w)\<rparr>"
  | (sent) item q t c s1 c1 where "go" "\<not> stop" "Pop (w_queue w) (w_tracker w) = Some (Some item, q, t)"
      "(case w_conn w of Some c \<Rightarrow> Inr c | None \<Rightarrow> dialed) = Inr c"
      "transferFile rdf (w_os w) c item = Some (None, s1, c1)"
      "w' = w\<lparr>w_os := snd (postCommit p s1 item), w_queue := RecordSuccess q (Filename item),
         w_scanner := map_option (\<lambda>sc. MarkCompleted sc (Filename item)) (w_scanner w),
         w_tracker := map_option (Tracker_RecordSuccess now (of_int (Size item))) t, w_conn := Some c1\<rparr>"
proof (cases "stop \<or> (\<exists>q t. Pop (w_queue w) (w_tracker w) = Some (None, q, t))")
  case True
  with assms show thesis by (intro ended) (auto simp: worker_iter_def split: if_splits)
next
  case False
  with assms obtain item q t where pop: "Pop (w_queue w) (w_tracker w) = Some (Some item, q, t)"
    by (auto simp: worker_iter_def split: option.splits)
  note start = assms [unfolded worker_iter_def] False pop
  show thesis
  proof (cases "case w_conn w of Some c \<Rightarrow> Inr c | None \<Rightarrow> dialed")
    case (Inl err)
    then have "w_conn w = None" "dialed = Inl err" by (auto split: option.splits)
    with start Inl show thesis by (auto intro: undialed split: prod.splits)
  next
    case (Inr c)
    obtain r s1 c1 where "transferFile rdf (w_os w) c item = Some (r, s1, c1)" using transferFile_returns by blast
    with start Inr show thesis by (cases r) (auto intro: failed sent simp: Let_def split: prod.splits)
  qed
qed

section \<open>No source file is lost\<close>

lemma RecordFailure_content:
  assumes "RecordFailure srt s q t item = (b, s', q', t')" "content s p = Some d"
    and "p \<noteq> failedDir q @ [Filename item]"
  shows "content s' p = Some d \<or> p = Path item \<and> content s' (failedDir q @ [Filename item]) = Some d"
proof (cases b)
  case False
  with assms(1) have "s' = s" by (auto simp: RecordFailure_def Let_def split: if_splits)
  with assms(2) show ?thesis by simp
next
  case True
  define s1 where "s1 = snd (MkdirAll s (failedDir q))"
  obtain r s2 where 2: "Rename s1 (Path item) (failedDir q @ [Filename item]) = (r, s2)" by fastforce
  have "o_fs s' = o_fs s2"
    using assms(1) True 2
    by (auto simp: RecordFailure_def s1_def updateFailedCount_def ReadDir_def Let_def
        split: if_splits prod.splits option.splits dest!: fault_same)
  then have c: "content s' = content s2" by (rule content_cong)
  have c1: "content s1 = content s" by (simp add: s1_def content_MkdirAll)
  from 2 show ?thesis
    by (rule content_Rename) (use assms(2,3) c c1 in auto)
qed

lemma postCommit_content:
  assumes "postCommit p s item = (r, s')" "content s x = Some d" "x \<noteq> p_watchDir p @ [''.sent'', Filename item]"
  shows "content s' x = Some d \<or> x = Path item \<and>
    (p_afterAction p = ''delete'' \<or> content s' (p_watchDir p @ [''.sent'', Filename item]) = Some d)"
proof (cases "p_afterAction p = ''delete''")
  case True
  with assms show ?thesis by (auto simp: postCommit_def dest!: content_Remove split: if_splits)
next
  case False
  obtain r1 s1 where 1: "MkdirAll s (p_watchDir p @ [''.sent'']) = (r1, s1)" by fastforce
  then have c1: "content s1 = content s" using content_MkdirAll [of s] by (metis snd_conv)
  show ?thesis
  proof (cases r1)
    case (Some e)
    with assms False 1 c1 show ?thesis by (auto simp: postCommit_def)
  next
    case None
    with assms(1) False 1 have "Rename s1 (Path item) (p_watchDir p @ [''.sent'', Filename item]) = (r, s')"
      by (simp add: postCommit_def)
    then show ?thesis by (rule content_Rename) (use assms(2,3) c1 in auto)
  qed
qed

lemma transferFile_content: "transferFile rdf s c item = Some (r, s', c') \<Longrightarrow> content s' = content s"
proof -
  assume call: "transferFile rdf s c item = Some (r, s', c')"
  obtain r1 s1 where 1: "Open s (Path item) = (r1, s1)" by fastforce
  then have same: "same_fs s s1" by (auto elim: Open_cases)
  have "same_fs s s'"
  proof (cases r1)
    case (Inl e)
    with 1 call same show ?thesis by (simp add: transferFile_def)
  next
    case (Inr f)
    obtain r2 s2 where 2: "File_Stat s1 f = (r2, s2)" by fastforce
    have "s' = snd (File_Close s2)"
      using call 1 2 Inr by (auto simp: transferFile_def Let_def split: sum.splits option.splits prod.splits)
    with same File_Stat_same [OF 2] same_fs_File_Close [of s2] show ?thesis by (metis same_fs_trans)
  qed
  then show ?thesis by (rule content_same)
qed

text \<open>
  C14: a successful transfer means that the whole file was sent and acknowledged: the bytes
  written to the connection are one frame with the item's name and exactly the bytes the file
  delivered up to its end, as many as its size says; the response consumed is one ACK; the local
  files are untouched.
\<close>

theorem transfer_sends_whole_file:
  assumes "transferFile rdf s c item = Some (None, s', c')"
  shows "\<exists>d p. content s (Path item) = Some d \<and> rdf d = (p, EOF) \<and> (of_nat (length p) :: u64) = of_nat (length d) \<and>
    ValidateFilename (Filename item) = None \<and>
    c_sent c' = c_sent c @ header_bytes (Filename item) (of_nat (length p)) @ p @ sha256 p \<and>
    pending c = AckByte # pending c' \<and> content s' = content s"
  using assms by (rule transferFile_ok) (auto simp: frame_bytes_def content_same)


section \<open>A transfer that succeeds\<close>

lemma transferFile_complete:
  assumes quiet: "o_faults s = []" and src: "ent s (Path item) = Some (Ino i)" "Path item \<noteq> []"
    and data: "rdf (i_data (inode_of s i)) = (i_data (inode_of s i), EOF)"
    and name: "ValidateFilename (Filename item) = None"
    and conn: "c_wbudget c = None" "conn_stream ReadWriteTimeout c = (AckByte # rest, e)"
  shows "\<exists>s' c'. transferFile rdf s c item = Some (None, s', c')"
proof -
  let ?d = "i_data (inode_of s i)" and ?\<tau> = ReadWriteTimeout
  let ?sz = "of_int (int (length (i_data (inode_of s i)))) :: u64"
  have pos: "0 < ?\<tau>" by (simp add: ReadWriteTimeout_def second_def)
  have 1: "Open s (Path item) = (Inr (Ino i), s)" using quiet src by (simp add: Open_def fault_quiet is_dir_def)
  have 2: "File_Stat s (Ino i) = (Inr (int (length ?d)), s)" using quiet by (simp add: File_Stat_def fault_quiet)
  have room: "timed_room ?\<tau> x k" if "c_wbudget x = None" for x k
    using that pos by (simp add: timed_room_def conn_room_def SetWriteDeadline_def expired_def)
  define Q where "Q = (\<lambda>x :: conn. c_wbudget x = None \<and> c_in x = c_in c \<and> c_end x = c_end c \<and> c_clock x = c_clock c \<and> c_addr x = c_addr c)"
  have wr: "Q x'" if "Q x" "DeadlineConn_Write ?\<tau> x b = (n, e, x')" for x b n e x'
    using that by (auto simp: Q_def DeadlineConn_Write_def conn_Write_def SetWriteDeadline_def split: if_splits option.splits)
  have Qc: "Q c" using conn(1) by (simp add: Q_def)
  obtain c1 where w: "DeadlineConn_Write ?\<tau> c (header_bytes (Filename item) ?sz) = (length (header_bytes (Filename item) ?sz), None, c1)"
    using timed_w.write_room [OF room [OF conn(1)] order_refl, of "header_bytes (Filename item) ?sz"] by blast
  then have 3: "WriteRequestHeader (DeadlineConn_Write ?\<tau>) c (Filename item) ?sz = (None, c1)"
    by (simp add: WriteRequestHeader_valid [OF name])
  have Q1: "Q c1" by (rule wr [OF Qc w])
  obtain fd c2 where 4: "SendStream (DeadlineConn_Write ?\<tau>) File_Read c1 (?d, EOF) ?sz = Some (sha256 ?d, None, fd, c2)"
    by (rule send.SendStream_complete [of "(?d, EOF)" ?d ?sz ?\<tau> c1]) (use Q1 room in \<open>auto simp: Q_def\<close>)
  have "Q c2" by (rule SendStream_invariant [where Q = Q, OF 4 Q1 wr])
  then have "conn_stream ?\<tau> c2 = conn_stream ?\<tau> c"
    using pos by (simp add: conn_stream_def Q_def deliver_deadline [of _ "c_rdeadline c2" _ _ _ _ "c_rdeadline c"])
  with conn(2) obtain c3 where 5: "ReadResponse (DeadlineConn_Read ?\<tau>) c2 = Some (None, c3)"
    by (metis timed.ReadResponse_ack)
  show ?thesis
    using 1 2 3 4 5 data by (simp add: transferFile_def file_stream_def Let_def)
qed

section \<open>A stranded file\<close>

definition strand_item :: FileItem where
  "strand_item = \<lparr>Filename = ''a.csv'', Path = [''out'', ''a.csv''], Size = 1, ModTime = 1\<rparr>"

definition strand_worker :: worker where
  "strand_worker =
     \<lparr>w_os = empty_os\<lparr>o_faults := [None, Some (New ''permission denied'')]\<rparr>,
      w_queue = reborn_queue\<lparr>q_items := [strand_item], q_inQueue := {''a.csv''}\<rparr>,
      w_scanner = Some \<lparr>sc_watchDir = [''out''], sc_interval = 1,
        sc_states = [''a.csv'' \<mapsto> \<lparr>f_size = 1, f_modTime = 1, f_consecutiveScans = 2, f_isQueued = True\<rparr>]\<rparr>,
      w_tracker = None, w_conn = None\<rparr>"

definition strand_pool :: ClientPool where
  "strand_pool = NewClientPool [''out''] ''host:1'' ''c.pem'' ''k.pem'' [] 1 ''''"


section \<open>Concrete transfers\<close>

text \<open>A file of three bytes and a receiver that answers with an ACK.\<close>

definition demo_item :: FileItem where
  "demo_item = \<lparr>Filename = ''report.csv'', Path = [''out'', ''report.csv''], Size = 3, ModTime = 1\<rparr>"

definition demo_source :: os where
  "demo_source = \<lparr>o_fs = \<lparr>v_ents = [([''out''], Dir), ([''out'', ''report.csv''], Ino 0)], v_disk = [],
       v_inodes = (\<lambda>_. \<lparr>i_data = [1, 2, 3], i_synced = [], i_mtime = 1\<rparr>)\<rparr>,
     o_hist = [], o_next = 1, o_faults = [], o_space = None, o_clock = 0, o_entropy = (\<lambda>_. []), o_draws = 0\<rparr>"

definition demo_uplink :: conn where
  "demo_uplink = \<lparr>c_clock = 0, c_rdeadline = None, c_wdeadline = None, c_in = [(0, [AckByte])], c_end = (0, EOF),
     c_sent = [], c_wbudget = None, c_werr = ErrClosed, c_addr = ''receiver''\<rparr>"

lemma demo_transfer:
  obtains s' c' where "transferFile (\<lambda>d. (d, EOF)) demo_source demo_uplink demo_item = Some (None, s', c')"
proof -
  have "conn_stream ReadWriteTimeout demo_uplink = ([AckByte], EOF)" by code_simp
  moreover have "ValidateFilename (Filename demo_item) = None" by code_simp
  ultimately show thesis
    using transferFile_complete [of demo_source demo_item 0 "\<lambda>d. (d, EOF)" demo_uplink "[]" EOF] that
    by (force simp: demo_source_def demo_item_def demo_uplink_def ent_def)
qed

lemma demo_source_content: "content demo_source (Path demo_item) = Some [1, 2, 3]"
  by code_simp

theorem transfer_sends_whole_file_witness:
  "\<exists>s' c'. transferFile (\<lambda>d. (d, EOF)) demo_source demo_uplink demo_item = Some (None, s', c') \<and>
    c_sent c' = header_bytes ''report.csv'' 3 @ [1, 2, 3] @ sha256 [1, 2, 3] \<and> pending demo_uplink = [AckByte]"
proof -
  obtain s' c' where tr: "transferFile (\<lambda>d. (d, EOF)) demo_source demo_uplink demo_item = Some (None, s', c')"
    by (rule demo_transfer)
  from transfer_sends_whole_file [OF this] demo_source_content tr show ?thesis
    by (auto simp: demo_item_def demo_uplink_def pending_def)
qed

definition demo_worker :: worker where
  "demo_worker =
     \<lparr>w_os = demo_source, w_queue = reborn_queue\<lparr>q_items := [demo_item], q_inQueue := {''report.csv''}\<rparr>,
      w_scanner = None, w_tracker = None, w_conn = Some demo_uplink\<rparr>"


end
