(* ===== verification/End_To_End.thy ===== *)
theory End_To_End
  imports Receiver_Session Sender_Client
begin

text \<open>
  Sender and receiver together. A receiver's session is described by the frames it acknowledged;
  since a byte stream splits into frames in one way only, these are the frames the sender sent.
  An ACK the sender has read therefore means that the file is on the receiver's stable storage.
\<close>

section \<open>Stable files\<close>

text \<open>The content at a path when entry and data are both on stable storage.\<close>

definition on_disk :: "os \<Rightarrow> path \<Rightarrow> byte list option" where
  "on_disk s q =
     (case file_at (v_ents (o_fs s)) q of
        None \<Rightarrow> None
      | Some i \<Rightarrow>
          (let nd = v_inodes (o_fs s) i in
           if file_at (v_disk (o_fs s)) q = Some i \<and> i_synced nd = i_data nd then Some (i_data nd) else None))"

lemma on_disk_survives: "on_disk s q = Some p \<Longrightarrow> content s q = Some p \<and> (survives (o_fs s) q x \<longleftrightarrow> x = p)"
  by (auto simp: on_disk_def file_at_content inode_of_def survives_file_at Let_def split: option.splits if_splits)

lemma on_disk_clean:
  assumes "clean A s s'" "fs_wf s" "q \<notin> A"
  shows "on_disk s' q = on_disk s q"
proof -
  have u: "untouched A (o_next s) (o_fs s) (o_fs s')" using assms(1) by (auto simp: clean_def intro: trail_view)
  show ?thesis
  proof (cases "file_at (v_ents (o_fs s)) q")
    case None
    with u assms(3) show ?thesis by (auto simp: on_disk_def untouched_def)
  next
    case (Some i)
    with file_at_less [OF assms(2)] u assms(3) show ?thesis by (auto simp: on_disk_def untouched_def)
  qed
qed

lemma on_disk_arrived:
  assumes ar: "arrived s sp tgt f p s'" and wf: "fs_wf s" and d: "file_at (v_disk (o_fs s')) tgt = Some f"
  shows "on_disk s' tgt = Some p"
    and "q \<noteq> tgt \<Longrightarrow> q \<noteq> sp \<Longrightarrow> on_disk s q = Some x \<Longrightarrow> on_disk s' q = Some x"
proof -
  have l: "landed sp tgt (o_next s) (o_fs s) f p (o_fs s')" using ar by (simp add: arrived_def)
  then show "on_disk s' tgt = Some p" using d by (simp add: on_disk_def landed_def)
  assume q: "q \<noteq> tgt" "q \<noteq> sp" and x: "on_disk s q = Some x"
  then obtain i where i: "file_at (v_ents (o_fs s)) q = Some i" "file_at (v_disk (o_fs s)) q = Some i"
    by (auto simp: on_disk_def Let_def split: option.splits if_splits)
  have "file_at (v_ents (o_fs s')) q = Some i" "file_at (v_disk (o_fs s')) q = Some i"
    using l q i unfolding landed_def by metis+
  moreover have "v_inodes (o_fs s') i = v_inodes (o_fs s) i"
    using l file_at_less [OF wf i(1)] by (simp add: landed_def)
  ultimately show "on_disk s' q = Some x" using x i by (simp add: on_disk_def)
qed

section \<open>What a receiver's session has done\<close>

definition target :: "server \<Rightarrow> string \<Rightarrow> path" where
  "target sv n = s_incomingDir sv @ [n]"

definition valid_file :: "string \<times> byte list \<Rightarrow> bool" where
  "valid_file = (\<lambda>(n, p). ValidateFilename n = None \<and> length p < 2 ^ 63)"

definition frames :: "(string \<times> byte list) list \<Rightarrow> byte list" where
  "frames fs = concat (map (\<lambda>(n, p). frame_bytes n p) fs)"

lemma frames_simps [simp]: "frames [] = []" "frames ((n, p) # fs) = frame_bytes n p @ frames fs"
  by (simp_all add: frames_def)

lemma frame_nonempty: "frame_bytes n p \<noteq> []"
  by (simp add: frame_bytes_def header_bytes_def nonempty_fields)

text \<open>A session with the frames \<open>fs\<close> acknowledged and \<open>rest\<close> left of the stream.\<close>

definition session_done ::
  "server \<Rightarrow> os \<Rightarrow> conn \<Rightarrow> os \<Rightarrow> conn \<Rightarrow> (string \<times> byte list) list \<Rightarrow> byte list \<Rightarrow> bool"
where
  "session_done sv s c s' c' fs rest \<longleftrightarrow>
     pending c = frames fs @ rest \<and> list_all valid_file fs \<and>
     (\<exists>k msg. c_sent c' = c_sent c @ replicate (length fs) AckByte @ take k (nack_frame msg)) \<and>
     (rest = [] \<longrightarrow>
        (\<forall>q. \<not> prefix (stagingDir (s_incomingDir sv)) q \<longrightarrow>
           content s' q = fold (\<lambda>(n, p) m. m(target sv n \<mapsto> p)) fs (content s) q) \<and>
        (\<forall>n p. map_of (rev fs) n = Some p \<longrightarrow> on_disk s' (target sv n) = Some p) \<and>
        (\<forall>q x. \<not> prefix (stagingDir (s_incomingDir sv)) q \<longrightarrow> q \<notin> target sv ` fst ` set fs \<longrightarrow>
           on_disk s q = Some x \<longrightarrow> on_disk s' q = Some x))"

lemma last_turn:
  assumes wf: "fs_wf s" and tr: "turn sv s c t False s' c' t'"
  shows "session_done sv s c s' c' [] (pending c)"
  using tr
proof (cases rule: turn.cases)
  case (refused k msg)
  then show ?thesis
    using clean_content [OF refused(1) wf] on_disk_clean [OF refused(1) wf]
    by (auto simp: session_done_def)
next
  case (dropped sp k msg)
  have "q \<noteq> sp" if "\<not> prefix (stagingDir (s_incomingDir sv)) q" for q
    using that dropped(1) by (auto simp: staging_path_def)
  then show ?thesis
    using dropped clean_content [OF dropped(3) wf] on_disk_clean [OF dropped(3) wf]
    by (auto simp: session_done_def)
next
  case (landed sp f name p rest k msg)
  then show ?thesis using frame_nonempty by (auto simp: session_done_def)
qed simp

lemma fold_update_cong:
  "f q = g q \<Longrightarrow>
   fold (\<lambda>(n, p) m. m(t n \<mapsto> p)) xs f q = fold (\<lambda>(n, p) m. m(t n \<mapsto> p)) xs g q"
proof (induction xs arbitrary: f g)
  case (Cons x xs)
  obtain n p where "x = (n, p)" by (cases x)
  then show ?case unfolding fold_simps by (simp only: prod.case) (rule Cons.IH, simp add: Cons.prems)
qed simp

lemma next_turn:
  assumes wf: "fs_wf s" and tr: "turn sv s c t True s1 c1 t1" and rest: "session_done sv s1 c1 s' c' fs r"
  obtains n p where "session_done sv s c s' c' ((n, p) # fs) r"
  using tr
proof (cases rule: turn_True)
  case (acked sp f n p)
  let ?stg = "stagingDir (s_incomingDir sv)" and ?tgt = "s_incomingDir sv @ [n]"
  have sp: "q \<noteq> sp" if "\<not> prefix ?stg q" for q using that acked(2) by (auto simp: staging_path_def)
  have tgt: "\<not> prefix ?stg (target sv n)" using staging_not_target(3) [OF acked(2,5)] by (simp add: target_def)
  note od = on_disk_arrived [OF acked(9) wf acked(10)]
  have content: "content s' q = fold (\<lambda>(n, p) m. m(target sv n \<mapsto> p)) ((n, p) # fs) (content s) q"
    if r: "r = []" and q: "\<not> prefix ?stg q" for q
  proof -
    have "content s1 q = ((content s)(target sv n \<mapsto> p)) q"
      using arrived_content [OF acked(9) wf] sp [OF q] by (simp add: target_def)
    then have "fold (\<lambda>(n, p) m. m(target sv n \<mapsto> p)) fs (content s1) q =
        fold (\<lambda>(n, p) m. m(target sv n \<mapsto> p)) fs ((content s)(target sv n \<mapsto> p)) q"
      by (rule fold_update_cong)
    then show ?thesis using rest r q by (simp add: session_done_def)
  qed
  have last: "on_disk s' (target sv m) = Some y" if r: "r = []" and m: "map_of (rev ((n, p) # fs)) m = Some y" for m y
  proof (cases "map_of (rev fs) m")
    case (Some z)
    with m rest r show ?thesis by (auto simp: session_done_def)
  next
    case None
    with m have "m = n" "y = p" by (auto split: if_splits)
    moreover have "target sv n \<notin> target sv ` fst ` set fs"
      using None \<open>m = n\<close> by (auto simp: map_of_eq_None_iff target_def image_iff)
    ultimately show ?thesis using rest r tgt od(1) by (simp add: session_done_def target_def)
  qed
  have other: "on_disk s' q = Some x" if "r = []" "\<not> prefix ?stg q" "q \<notin> target sv ` fst ` set ((n, p) # fs)" "on_disk s q = Some x" for q x
    using rest that od(2) [of q x] sp [OF that(2)] by (simp add: session_done_def target_def)
  obtain k msg where sent: "c_sent c' = c_sent c1 @ replicate (length fs) AckByte @ take k (nack_frame msg)"
    and fs: "pending c1 = frames fs @ r" "list_all valid_file fs"
    using rest unfolding session_done_def by blast
  have "c_sent c' = c_sent c @ replicate (length ((n, p) # fs)) AckByte @ take k (nack_frame msg)"
    using acked(11) sent by simp
  with acked fs content last other show thesis
    unfolding session_done_def by (intro that [of n p]) (auto simp: session_done_def valid_file_def simp del: fun_upd_apply fold_simps rev.simps)
qed

text \<open>Every session is of this form.\<close>

lemma session_sound:
  assumes "fs_wf s" "handle_loop sv s c t = Some (s', c', t')"
  shows "\<exists>fs r. session_done sv s c s' c' fs r"
  using assms
proof (induction "length (pending c)" arbitrary: s c t rule: less_induct)
  case less
  obtain go s1 c1 t1 where call: "handle_request sv s c t = Some (go, s1, c1, t1)"
    using handle_request_returns by blast
  note tr = handle_request_turn [OF less.prems(1) call]
  show ?case
  proof (cases go)
    case False
    with less.prems(2) call have "s' = s1 \<and> c' = c1" by (subst (asm) handle_loop.simps) simp
    with last_turn [OF less.prems(1), of sv c t s1 c1 t1] tr False show ?thesis by auto
  next
    case True
    with tr have tr': "turn sv s c t True s1 c1 t1" by simp
    then have "length (pending c1) < length (pending c)"
      by (cases rule: turn_True) (simp add: frame_bytes_def length_header_bytes)
    moreover have "handle_loop sv s1 c1 t1 = Some (s', c', t')"
      using less.prems(2) call True by (subst (asm) handle_loop.simps) simp
    ultimately obtain fs r where "session_done sv s1 c1 s' c' fs r"
      using less.hyps turn_wf [OF tr] by blast
    then show ?thesis by (rule next_turn [OF less.prems(1) tr']) blast
  qed
qed

section \<open>What an ACK is worth\<close>

text \<open>
  Consecutive successful transfers over one connection; the local files may change in between.
  Each is recorded by its name and the bytes the source file delivered.
\<close>

inductive uploads :: "conn \<Rightarrow> (string \<times> byte list) list \<Rightarrow> conn \<Rightarrow> bool" where
  finished: "uploads c [] c"
| upload: "transferFile rdf s c item = Some (None, s', c1) \<Longrightarrow> content s (Path item) = Some d \<Longrightarrow>
    uploads c1 fs c' \<Longrightarrow> uploads c ((Filename item, fst (rdf d)) # fs) c'"

lemma uploads_bytes:
  "uploads c fs c' \<Longrightarrow> c_sent c' = c_sent c @ frames fs \<and> pending c = replicate (length fs) AckByte @ pending c' \<and>
     list_all (\<lambda>(n, p). ValidateFilename n = None) fs"
proof (induction rule: uploads.induct)
  case (upload rdf s c item s' c1 d fs c')
  from upload(1) obtain d' p where "content s (Path item) = Some d'" "rdf d' = (p, EOF)" "ValidateFilename (Filename item) = None"
    "c_sent c1 = c_sent c @ frame_bytes (Filename item) p" "pending c = AckByte # pending c1"
    by (rule transferFile_ok)
  with upload(2,4) show ?case by simp
qed simp

lemma frames_unique:
  "frames fs @ r = frames gs \<Longrightarrow> list_all valid_file fs \<Longrightarrow> list_all valid_file gs \<Longrightarrow> length gs \<le> length fs \<Longrightarrow>
   fs = gs \<and> r = []"
proof (induction fs arbitrary: gs)
  case (Cons x fs)
  obtain n p where x: "x = (n, p)" by (cases x)
  have "gs \<noteq> []" using Cons.prems(1) frame_nonempty x by (cases gs) auto
  then obtain n' p' gs' where gs: "gs = (n', p') # gs'" by (cases gs) auto
  have "n = n' \<and> p = p' \<and> frames fs @ r = frames gs'"
    by (rule frame_bytes_prefix) (use Cons.prems x gs in \<open>simp_all add: valid_file_def\<close>)
  with Cons.IH [of gs'] Cons.prems x gs show ?case by simp
qed simp

lemma acks_counted:
  assumes "prefix (replicate m AckByte) (replicate k AckByte @ take j (nack_frame msg))"
  shows "m \<le> k"
proof (rule ccontr)
  assume "\<not> m \<le> k"
  then have "replicate m AckByte = replicate k AckByte @ AckByte # replicate (m - Suc k) AckByte"
    by (metis Suc_diff_Suc le_add_diff_inverse less_or_eq_imp_le not_le replicate_Suc replicate_add)
  with assms have "prefix (AckByte # replicate (m - Suc k) AckByte) (take j (nack_frame msg))" by simp
  then show False by (cases j) (simp_all add: nack_frame_def AckByte_def NackByte_def Let_def)
qed

text \<open>
  C1: end to end. Suppose a sender has completed a sequence of transfers over a connection, and the
  link between the two programs is honest: what the receiver reads is what the sender wrote, and
  what the sender can read is part of what the receiver wrote. Then, whatever faults either
  operating system had, when the receiver's handler has returned every file sent is in the incoming
  directory, under its own name and with exactly the bytes the source delivered, and both its entry
  and its data are on stable storage; outside the staging directory nothing but these files has
  changed.
\<close>

theorem acked_means_delivered:
  assumes sender: "uploads cs fs cs'" "c_sent cs = []" "list_all (\<lambda>(n, p). length p < 2 ^ 63) fs"
    and receiver: "handleConnection sv None s cr t = Some (s', cr', t')" "fs_wf s" "c_sent cr = []"
    and link: "pending cr = c_sent cs'" "prefix (pending cs) (c_sent cr')"
  shows "(\<forall>n p. map_of (rev fs) n = Some p \<longrightarrow>
      on_disk s' (target sv n) = Some p \<and> (\<forall>x. survives (o_fs s') (target sv n) x \<longleftrightarrow> x = p)) \<and>
    (\<forall>q. \<not> prefix (stagingDir (s_incomingDir sv)) q \<longrightarrow>
      content s' q = fold (\<lambda>(n, p) m. m(target sv n \<mapsto> p)) fs (content s) q)"
proof -
  define c0 where "c0 = SetDeadline cr (c_clock cr + HandshakeTimeout)"
  have c0: "pending c0 = pending cr" "c_sent c0 = []"
    using receiver(3) by (simp_all add: c0_def SetDeadline_def SetWriteDeadline_def SetReadDeadline_def pending_def)
  have "handle_loop sv s c0 t = Some (s', cr', t')" using receiver(1) by (simp add: handleConnection_def c0_def)
  from session_sound [OF receiver(2) this] obtain gs r where gs: "session_done sv s c0 s' cr' gs r" by blast
  then obtain k msg where g: "pending c0 = frames gs @ r" "list_all valid_file gs"
    "c_sent cr' = replicate (length gs) AckByte @ take k (nack_frame msg)"
    unfolding session_done_def c0(2) by auto
  note up = uploads_bytes [OF sender(1)]
  have "list_all valid_file fs" using up sender(3) by (auto simp: list_all_iff valid_file_def)
  moreover have "prefix (replicate (length fs) AckByte) (c_sent cr')"
    using up link(2) by (metis prefixI prefix_order.trans)
  then have "length fs \<le> length gs" unfolding g(3) by (rule acks_counted)
  moreover have "frames gs @ r = frames fs" using g(1) c0(1) link(1) up sender(2) by simp
  ultimately have "gs = fs \<and> r = []" using g(2) frames_unique by blast
  with gs show ?thesis by (auto simp: session_done_def dest: on_disk_survives)
qed

theorem acked_means_delivered_witness:
  "\<exists>cs' s' cr'. uploads demo_uplink [(''report.csv'', [1, 2, 3])] cs' \<and>
    handleConnection demo_server None demo_os demo_conn None = Some (s', cr', None) \<and>
    on_disk s' (target demo_server ''report.csv'') = Some [1, 2, 3]"
proof -
  obtain s1 cs' where tr: "transferFile (\<lambda>d. (d, EOF)) demo_source demo_uplink demo_item = Some (None, s1, cs')"
    by (rule demo_transfer)
  from upload [OF this demo_source_content finished]
  have up: "uploads demo_uplink [(''report.csv'', [1, 2, 3])] cs'" by (simp add: demo_item_def)
  have sent: "c_sent cs' = frame_bytes ''report.csv'' [1, 2, 3]"
    using uploads_bytes [OF up] by (simp add: demo_uplink_def)
  obtain s' cr' where rc: "handleConnection demo_server None demo_os demo_conn None = Some (s', cr', None)"
    "c_sent cr' = [AckByte]"
    by (rule demo_session)
  have "prefix (pending demo_uplink) (c_sent cr')" by (simp add: rc(2) pending_def demo_uplink_def)
  from acked_means_delivered [OF up _ _ rc(1) demo_wf _ _ this] rc(1) up sent show ?thesis
    by (auto simp: demo_pending demo_uplink_def) (simp add: demo_conn_def)
qed

end
