(* ===== verification/Sender_Run.thy ===== *)
theory Sender_Run
  imports Sender_Client
begin

text \<open>
  The sender as a running process: the scan loop of \<^verbatim>\<open>internal/sender/scanner.go\<close>, the workers that
  \<^verbatim>\<open>ClientPool.Start\<close> creates with their loop and \<^verbatim>\<open>ClientPool.Stop\<close> of \<^verbatim>\<open>client.go\<close>, and the sequence
  of starts and stops in \<^verbatim>\<open>runSend\<close> of \<^verbatim>\<open>cmd/xport/main.go\<close>. The goroutines are a step relation:
  a step is one operation on shared state, and any interleaving is a run. A worker's step is the
  relation \<open>wstep\<close> on the shared state and the worker's own, a step of the scan loop is \<open>scanstep\<close>;
  \<open>sstep\<close> lifts them to the process with its list of workers.
  A call that holds a mutex is one step. So are one directory listing, one transfer and
  one \<^verbatim>\<open>postCommit\<close>, of which only the last changes the file system. Other processes may change
  the file system at any time.
\<close>

section \<open>The workers\<close>

record sender =
  d_os :: os
  d_queue :: queue
  d_scanner :: "scanner option"
  d_tracker :: "tracker option"
  d_stopCh :: bool
  d_ctxDone :: bool

text \<open>
  Where a worker is in its loop: at the top, about to call \<^verbatim>\<open>Pop\<close>, with an item for which a
  connection may have to be dialed, or at one of the calls that follow a failed dial, a failed
  transfer, or a success.
\<close>

datatype wpos =
  LoopTop | Popping | Got FileItem
| DialFailed FileItem | DialCounted FileItem | Backoff
| SendFailed FileItem | SendCounted FileItem | Quarantined FileItem
| Acked FileItem | Archived FileItem | Cleared FileItem | Marked FileItem
| Gone

record wstate =
  ws_pos :: wpos
  ws_conn :: "conn option"

definition complete :: "string \<Rightarrow> sender \<Rightarrow> sender" where
  "complete n d = d\<lparr>d_scanner := map_option (\<lambda>sc. MarkCompleted sc n) (d_scanner d)\<rparr>"

definition count_error :: "int \<Rightarrow> sender \<Rightarrow> sender" where
  "count_error now d = d\<lparr>d_tracker := map_option (Tracker_RecordError now) (d_tracker d)\<rparr>"

inductive wstep ::
  "(FileItem list \<Rightarrow> FileItem list) \<Rightarrow> ClientPool \<Rightarrow> sender \<Rightarrow> wstate \<Rightarrow> sender \<Rightarrow> wstate \<Rightarrow> bool" for srt p
where
  check_stop: "ws_pos w = LoopTop \<Longrightarrow> d_stopCh d \<or> d_ctxDone d \<Longrightarrow>
    wstep srt p d w d (w\<lparr>ws_pos := Gone, ws_conn := None\<rparr>)"
| check_go: "ws_pos w = LoopTop \<Longrightarrow> \<not> (d_stopCh d \<or> d_ctxDone d) \<Longrightarrow> wstep srt p d w d (w\<lparr>ws_pos := Popping\<rparr>)"
| pop_end: "ws_pos w = Popping \<Longrightarrow> Pop (d_queue d) (d_tracker d) = Some (None, q, t) \<Longrightarrow>
    wstep srt p d w d (w\<lparr>ws_pos := Gone, ws_conn := None\<rparr>)"
| pop: "ws_pos w = Popping \<Longrightarrow> Pop (d_queue d) (d_tracker d) = Some (Some item, q, t) \<Longrightarrow>
    wstep srt p d w (d\<lparr>d_queue := q, d_tracker := t\<rparr>) (w\<lparr>ws_pos := Got item\<rparr>)"
| dial_ok: "ws_pos w = Got item \<Longrightarrow> ws_conn w = None \<Longrightarrow> dialPersistent p cfg dial hs = Inr c \<Longrightarrow>
    wstep srt p d w d (w\<lparr>ws_conn := Some c\<rparr>)"
| dial_fail: "ws_pos w = Got item \<Longrightarrow> ws_conn w = None \<Longrightarrow> dialPersistent p cfg dial hs = Inl err \<Longrightarrow>
    wstep srt p d w d (w\<lparr>ws_pos := DialFailed item\<rparr>)"
| dial_count: "ws_pos w = DialFailed item \<Longrightarrow> wstep srt p d w (count_error now d) (w\<lparr>ws_pos := DialCounted item\<rparr>)"
| dial_record: "ws_pos w = DialCounted item \<Longrightarrow>
    RecordFailure srt (d_os d) (d_queue d) (d_tracker d) item = (b, s, q, t) \<Longrightarrow>
    wstep srt p d w (d\<lparr>d_os := s, d_queue := q, d_tracker := t\<rparr>) (w\<lparr>ws_pos := Backoff\<rparr>)"
| backoff_stop: "ws_pos w = Backoff \<Longrightarrow> d_stopCh d \<Longrightarrow> wstep srt p d w d (w\<lparr>ws_pos := Gone, ws_conn := None\<rparr>)"
| backoff_over: "ws_pos w = Backoff \<Longrightarrow> wstep srt p d w d (w\<lparr>ws_pos := LoopTop\<rparr>)"
| send_fail: "ws_pos w = Got item \<Longrightarrow> ws_conn w = Some c \<Longrightarrow> transferFile rdf (d_os d) c item = Some (Some err, s, c') \<Longrightarrow>
    wstep srt p d w (d\<lparr>d_os := s\<rparr>) (w\<lparr>ws_pos := SendFailed item, ws_conn := None\<rparr>)"
| send_count: "ws_pos w = SendFailed item \<Longrightarrow> wstep srt p d w (count_error now d) (w\<lparr>ws_pos := SendCounted item\<rparr>)"
| send_record: "ws_pos w = SendCounted item \<Longrightarrow>
    RecordFailure srt (d_os d) (d_queue d) (d_tracker d) item = (quarantined, s, q, t) \<Longrightarrow>
    wstep srt p d w (d\<lparr>d_os := s, d_queue := q, d_tracker := t\<rparr>)
      (w\<lparr>ws_pos := (if quarantined then Quarantined item else LoopTop)\<rparr>)"
| send_mark: "ws_pos w = Quarantined item \<Longrightarrow> wstep srt p d w (complete (Filename item) d) (w\<lparr>ws_pos := LoopTop\<rparr>)"
| send_ok: "ws_pos w = Got item \<Longrightarrow> ws_conn w = Some c \<Longrightarrow> transferFile rdf (d_os d) c item = Some (None, s, c') \<Longrightarrow>
    wstep srt p d w (d\<lparr>d_os := s\<rparr>) (w\<lparr>ws_pos := Acked item, ws_conn := Some c'\<rparr>)"
| archive: "ws_pos w = Acked item \<Longrightarrow>
    wstep srt p d w (d\<lparr>d_os := snd (postCommit p (d_os d) item)\<rparr>) (w\<lparr>ws_pos := Archived item\<rparr>)"
| clear: "ws_pos w = Archived item \<Longrightarrow>
    wstep srt p d w (d\<lparr>d_queue := RecordSuccess (d_queue d) (Filename item)\<rparr>) (w\<lparr>ws_pos := Cleared item\<rparr>)"
| mark: "ws_pos w = Cleared item \<Longrightarrow> wstep srt p d w (complete (Filename item) d) (w\<lparr>ws_pos := Marked item\<rparr>)"
| count_ok: "ws_pos w = Marked item \<Longrightarrow>
    wstep srt p d w (d\<lparr>d_tracker := map_option (Tracker_RecordSuccess now (of_int (Size item))) (d_tracker d)\<rparr>)
      (w\<lparr>ws_pos := LoopTop\<rparr>)"

section \<open>The scan goroutine\<close>

text \<open>
  It is due to list the directory, or has a listing, or pushes what has become stable, or waits
  for the ticker, where it also notices that \<^verbatim>\<open>Scanner.Stop\<close> has closed its channel.
\<close>

datatype scanpos = ScanDue | Listing "(string \<times> entry) list" | Pushing "FileItem list" | Ticking | ScanGone

inductive scanstep ::
  "(FileItem list \<Rightarrow> FileItem list) \<Rightarrow> bool \<Rightarrow> sender \<Rightarrow> scanpos \<Rightarrow> sender \<Rightarrow> scanpos \<Rightarrow> bool" for srt stop
where
  scan_list: "d_scanner d = Some sc \<Longrightarrow> ReadDir (d_os d) (sc_watchDir sc) = (r, s) \<Longrightarrow>
    scanstep srt stop d ScanDue (d\<lparr>d_os := s\<rparr>) (case r of Inl err \<Rightarrow> Ticking | Inr entries \<Rightarrow> Listing entries)"
| scan_states: "d_scanner d = Some sc \<Longrightarrow>
    scan_entries (sc_watchDir sc) (d_os d) entries (sc_states sc) {} [] = (s, states, currentFiles, stableFiles) \<Longrightarrow>
    scanstep srt stop d (Listing entries) (d\<lparr>d_os := s, d_scanner := Some (sc\<lparr>sc_states := states |` currentFiles\<rparr>)\<rparr>)
      (Pushing (srt stableFiles))"
| scan_push: "Push srt (d_queue d) (d_tracker d) item = (q, t) \<Longrightarrow>
    scanstep srt stop d (Pushing (item # items)) (d\<lparr>d_queue := q, d_tracker := t\<rparr>) (Pushing items)"
| scan_end: "scanstep srt stop d (Pushing []) d Ticking"
| scan_tick: "scanstep srt stop d Ticking d ScanDue"
| scan_quit: "stop \<Longrightarrow> scanstep srt stop d Ticking d ScanGone"

section \<open>The process\<close>

text \<open>The main goroutine starts the workers, waits for a signal, and makes the calls after it.\<close>

datatype mainpos = Starting | Serving | ScannerStopped | ChannelClosed | QueueStopped | Waited | Cancelled

record ssys =
  y_shared :: sender
  y_workers :: "wstate list"
  y_scan :: scanpos
  y_scanStop :: bool
  y_main :: mainpos
  y_wg :: int

datatype actor = Worker nat | Scanner | Main | World

inductive sstep ::
  "(FileItem list \<Rightarrow> FileItem list) \<Rightarrow> ClientPool \<Rightarrow> actor \<Rightarrow> ssys \<Rightarrow> ssys \<Rightarrow> bool" for srt p
where
  worker: "k < length (y_workers y) \<Longrightarrow> wstep srt p (y_shared y) (y_workers y ! k) d w \<Longrightarrow>
    sstep srt p (Worker k) y (y\<lparr>y_shared := d, y_workers := (y_workers y)[k := w],
      y_wg := (if ws_pos w = Gone then y_wg y - 1 else y_wg y)\<rparr>)"
| scan: "scanstep srt (y_scanStop y) (y_shared y) (y_scan y) d sp \<Longrightarrow>
    sstep srt p Scanner y (y\<lparr>y_shared := d, y_scan := sp\<rparr>)"
| spawn: "y_main y = Starting \<Longrightarrow> int (length (y_workers y)) < p_parallel p \<Longrightarrow>
    sstep srt p Main y (y\<lparr>y_workers := y_workers y @ [\<lparr>ws_pos = LoopTop, ws_conn = None\<rparr>], y_wg := y_wg y + 1\<rparr>)"
| started: "y_main y = Starting \<Longrightarrow> \<not> int (length (y_workers y)) < p_parallel p \<Longrightarrow> sstep srt p Main y (y\<lparr>y_main := Serving\<rparr>)"
| signal: "y_main y = Serving \<Longrightarrow> sstep srt p Main y (y\<lparr>y_main := ScannerStopped, y_scanStop := True\<rparr>)"
| close_channel: "y_main y = ScannerStopped \<Longrightarrow>
    sstep srt p Main y (y\<lparr>y_main := ChannelClosed, y_shared := (y_shared y)\<lparr>d_stopCh := True\<rparr>\<rparr>)"
| stop_queue: "y_main y = ChannelClosed \<Longrightarrow>
    sstep srt p Main y (y\<lparr>y_main := QueueStopped, y_shared := (y_shared y)\<lparr>d_queue := Stop (d_queue (y_shared y))\<rparr>\<rparr>)"
| wait: "y_main y = QueueStopped \<Longrightarrow> y_wg y = 0 \<Longrightarrow> sstep srt p Main y (y\<lparr>y_main := Waited\<rparr>)"
| cancel: "y_main y = Waited \<Longrightarrow>
    sstep srt p Main y (y\<lparr>y_main := Cancelled, y_shared := (y_shared y)\<lparr>d_ctxDone := True\<rparr>\<rparr>)"
| world: "sstep srt p World y (y\<lparr>y_shared := (y_shared y)\<lparr>d_os := s\<rparr>\<rparr>)"

definition step :: "(FileItem list \<Rightarrow> FileItem list) \<Rightarrow> ClientPool \<Rightarrow> ssys \<Rightarrow> ssys \<Rightarrow> bool" where
  "step srt p y z \<longleftrightarrow> (\<exists>a. sstep srt p a y z)"

text \<open>The state after \<^verbatim>\<open>scanner.Start()\<close>, with the objects \<^verbatim>\<open>runSend\<close> has created.\<close>

definition send_init :: "os \<Rightarrow> path \<Rightarrow> int \<Rightarrow> int \<Rightarrow> tracker option \<Rightarrow> ssys" where
  "send_init s watchDir maxAttempts interval t =
     (case NewQueue s watchDir maxAttempts t of (s1, q, t1) \<Rightarrow>
        \<lparr>y_shared = \<lparr>d_os = s1, d_queue = q, d_scanner = Some (NewScanner watchDir interval), d_tracker = t1,
           d_stopCh = False, d_ctxDone = False\<rparr>,
         y_workers = [], y_scan = ScanDue, y_scanStop = False, y_main = Starting, y_wg = 0\<rparr>)"


section \<open>Invariants of the process\<close>

text \<open>The item of a worker that is between the ACK and the post-commit action was transferred.\<close>

definition delivered :: "wstate \<Rightarrow> FileItem \<Rightarrow> bool" where
  "delivered w item \<longleftrightarrow> (\<exists>rdf s c s' c'. transferFile rdf s c item = Some (None, s', c') \<and> ws_conn w = Some c')"

definition alive :: "ssys \<Rightarrow> nat" where
  "alive y = sum_list (map (\<lambda>w. if ws_pos w = Gone then 0 else 1) (y_workers y))"

definition ssys_inv :: "ClientPool \<Rightarrow> path \<Rightarrow> ssys \<Rightarrow> bool" where
  "ssys_inv p wd y \<longleftrightarrow>
     y_wg y = int (alive y) \<and> length (y_workers y) \<le> nat (p_parallel p) \<and>
     q_watchDir (d_queue (y_shared y)) = wd \<and> d_scanner (y_shared y) \<noteq> None \<and>
     (d_stopCh (y_shared y) \<longleftrightarrow> y_main y \<in> {ChannelClosed, QueueStopped, Waited, Cancelled}) \<and>
     (y_main y \<in> {QueueStopped, Waited, Cancelled} \<longrightarrow> q_stopped (d_queue (y_shared y))) \<and>
     (y_main y \<in> {Waited, Cancelled} \<longrightarrow> (\<forall>w \<in> set (y_workers y). ws_pos w = Gone)) \<and>
     (\<forall>w \<in> set (y_workers y). \<forall>item. ws_pos w = Acked item \<longrightarrow> delivered w item)"

lemma alive_zero: "alive y = 0 \<longleftrightarrow> (\<forall>w \<in> set (y_workers y). ws_pos w = Gone)"
  by (auto simp: alive_def)

lemma Push_sel: "Push srt q t item = (q', t') \<Longrightarrow> q_watchDir q' = q_watchDir q \<and> q_stopped q' = q_stopped q"
  by (auto simp: Push_def Let_def split: if_splits)

lemma Pop_sel: "Pop q t = Some (r, q', t') \<Longrightarrow> q_watchDir q' = q_watchDir q \<and> q_stopped q' = q_stopped q"
  by (auto simp: Pop_def Let_def split: list.splits if_splits)

lemma RecordFailure_sel:
  "RecordFailure srt s q t item = (b, s', q', t') \<Longrightarrow> q_watchDir q' = q_watchDir q \<and> q_stopped q' = q_stopped q"
  by (auto simp: RecordFailure_def Let_def split: if_splits dest!: updateFailedCount_sel)

lemma wstep_shared:
  assumes "wstep srt p d w d' w'"
  shows "q_watchDir (d_queue d') = q_watchDir (d_queue d) \<and> q_stopped (d_queue d') = q_stopped (d_queue d) \<and>
    d_stopCh d' = d_stopCh d \<and> d_ctxDone d' = d_ctxDone d \<and> (d_scanner d' = None \<longleftrightarrow> d_scanner d = None)"
  using assms
  by cases (auto simp: count_error_def complete_def RecordSuccess_def dest!: Pop_sel RecordFailure_sel)

lemma wstep_acked: "wstep srt p d w d' w' \<Longrightarrow> ws_pos w' = Acked item \<Longrightarrow> delivered w' item"
  by (induction rule: wstep.induct) (auto simp: delivered_def split: if_splits)

lemma wstep_from_Gone: "wstep srt p d w d' w' \<Longrightarrow> ws_pos w \<noteq> Gone"
  by (induction rule: wstep.induct) auto

lemma scanstep_shared:
  assumes "scanstep srt stop d sp d' sp'"
  shows "q_watchDir (d_queue d') = q_watchDir (d_queue d) \<and> q_stopped (d_queue d') = q_stopped (d_queue d) \<and>
    d_stopCh d' = d_stopCh d \<and> d_ctxDone d' = d_ctxDone d \<and> (d_scanner d' = None \<longleftrightarrow> d_scanner d = None)"
  using assms by cases (auto dest!: Push_sel)

lemma alive_update:
  assumes "k < length (y_workers y)" "ws_pos (y_workers y ! k) \<noteq> Gone" "y_workers z = (y_workers y)[k := w]"
  shows "int (alive z) = (if ws_pos w = Gone then int (alive y) - 1 else int (alive y))"
proof -
  let ?f = "\<lambda>w. if ws_pos w = Gone then 0 else 1 :: nat"
  have "?f (y_workers y ! k) \<le> alive y"
    using elem_le_sum_list [of k "map ?f (y_workers y)"] assms(1) by (simp add: alive_def)
  moreover have "alive z = alive y + ?f w - ?f (y_workers y ! k)"
    using assms(1) by (simp add: alive_def assms(3) map_update sum_list_update)
  ultimately show ?thesis using assms(2) by auto
qed

lemma ssys_inv_init: "ssys_inv p wd (send_init s wd m i t)"
  by (auto simp: ssys_inv_def send_init_def alive_def NewQueue_def split: prod.splits dest!: updateFailedCount_sel)

lemma ssys_inv_step:
  assumes "sstep srt p a y z" "ssys_inv p wd y"
  shows "ssys_inv p wd z"
  using assms(1)
proof cases
  case (worker k d w)
  note gone = wstep_from_Gone [OF worker(4)]
  have "ws_pos (y_workers y ! k) = Gone" if "y_main y \<in> {Waited, Cancelled}"
    using assms(2) worker(3) that by (auto simp: ssys_inv_def)
  with gone have "y_main y \<notin> {Waited, Cancelled}" by blast
  moreover have "int (alive z) = (if ws_pos w = Gone then int (alive y) - 1 else int (alive y))"
    by (rule alive_update [OF worker(3) gone]) (simp add: worker(2))
  ultimately show ?thesis
    using assms(2) worker(2) wstep_shared [OF worker(4)] wstep_acked [OF worker(4)]
    by (auto simp: ssys_inv_def dest!: set_update_subset_insert [THEN subsetD])
next
  case (scan d sp)
  with assms(2) scanstep_shared [OF scan(3)] show ?thesis by (simp add: ssys_inv_def alive_def)
next
  case wait
  with assms(2) alive_zero [of y] show ?thesis by (auto simp: ssys_inv_def alive_def)
qed (use assms(2) in \<open>auto simp: ssys_inv_def alive_def Stop_def\<close>)

lemma ssys_reach_inv: "(step srt p)\<^sup>*\<^sup>* (send_init s wd m i t) y \<Longrightarrow> ssys_inv p wd y"
  by (induction rule: rtranclp_induct) (auto simp: step_def intro: ssys_inv_init ssys_inv_step)


section \<open>Work left after a stop\<close>

text \<open>How many steps a worker can still make once the stop channel is closed.\<close>

definition work :: "wstate \<Rightarrow> nat" where
  "work w = (case ws_pos w of
     LoopTop \<Rightarrow> 1 | Popping \<Rightarrow> 8 | Got _ \<Rightarrow> if ws_conn w = None then 7 else 6
   | DialFailed _ \<Rightarrow> 4 | DialCounted _ \<Rightarrow> 3 | Backoff \<Rightarrow> 2
   | SendFailed _ \<Rightarrow> 4 | SendCounted _ \<Rightarrow> 3 | Quarantined _ \<Rightarrow> 2
   | Acked _ \<Rightarrow> 5 | Archived _ \<Rightarrow> 4 | Cleared _ \<Rightarrow> 3 | Marked _ \<Rightarrow> 2
   | Gone \<Rightarrow> 0)"

definition remaining :: "ssys \<Rightarrow> nat" where
  "remaining y = sum_list (map work (y_workers y))"

lemma work_le: "work w \<le> 8"
  by (simp add: work_def split: wpos.splits)

lemma remaining_le: "remaining y \<le> 8 * length (y_workers y)"
proof -
  have "sum_list (map work ws) \<le> 8 * length ws" for ws
    by (induction ws) (auto intro: add_mono work_le)
  then show ?thesis by (simp add: remaining_def)
qed

lemma wstep_work: "wstep srt p d w d' w' \<Longrightarrow> d_stopCh d \<Longrightarrow> work w' < work w"
  by (induction rule: wstep.induct) (auto simp: work_def)

lemma sstep_work:
  assumes "sstep srt p a y z" "d_stopCh (y_shared y)" "y_main y \<noteq> Starting"
  shows "remaining z + (case a of Worker _ \<Rightarrow> 1 | _ \<Rightarrow> 0) \<le> remaining y"
  using assms(1)
proof cases
  case (worker k d w)
  have "work (y_workers y ! k) \<le> remaining y"
    using elem_le_sum_list [of k "map work (y_workers y)"] worker(3) by (simp add: remaining_def)
  then have "remaining z + work (y_workers y ! k) = remaining y + work w"
    using worker(3) by (simp add: remaining_def worker(2) map_update sum_list_update)
  with wstep_work [OF worker(4) assms(2)] worker(1) show ?thesis by simp
qed (use assms(3) in \<open>simp_all add: remaining_def\<close>)

text \<open>A worker is stuck only in \<^verbatim>\<open>Pop\<close> on a queue that is empty and not stopped, or at its end.\<close>

lemma wstep_progress:
  assumes "ws_pos w \<noteq> Gone" "ws_pos w = Popping \<Longrightarrow> q_stopped (d_queue d) \<or> q_items (d_queue d) \<noteq> []"
  shows "\<exists>d' w'. wstep srt p d w d' w'"
proof (cases "ws_pos w")
  case LoopTop
  then show ?thesis by (cases "d_stopCh d \<or> d_ctxDone d") (auto intro: check_stop check_go)
next
  case Popping
  with assms(2) have "Pop (d_queue d) (d_tracker d) \<noteq> None" by (auto simp: Pop_def Let_def split: list.splits)
  then obtain r q t where "Pop (d_queue d) (d_tracker d) = Some (r, q, t)" by (metis option.exhaust prod_cases3)
  with Popping show ?thesis by (cases r) (auto intro: pop_end pop)
next
  case (Got item)
  show ?thesis
  proof (cases "ws_conn w")
    case None
    have "dialPersistent p (Some ErrClosed) (Inl ErrClosed) None = Inl (Wrap ''client tls config error: '' ErrClosed '''')"
      by (simp add: dialPersistent_def)
    from dial_fail [OF Got None this] show ?thesis by blast
  next
    case (Some c)
    obtain r s c' where "transferFile (\<lambda>d. (d, EOF)) (d_os d) c item = Some (r, s, c')"
      using transferFile_returns by blast
    with Got Some show ?thesis by (cases r) (auto intro: send_ok send_fail)
  qed
next
  case (DialCounted item)
  then show ?thesis by (metis dial_record prod_cases4)
next
  case (SendCounted item)
  then show ?thesis by (metis send_record prod_cases4)
qed (use assms(1) in \<open>blast intro: wstep.intros\<close>)+

lemma worker_progress:
  assumes "k < length (y_workers y)" "ws_pos (y_workers y ! k) \<noteq> Gone" "q_stopped (d_queue (y_shared y))"
  shows "\<exists>z. sstep srt p (Worker k) y z"
  using wstep_progress [OF assms(2)] assms(1,3) sstep.worker by blast

section \<open>What the workers do to the files\<close>

lemma wstep_files:
  assumes "wstep srt p d w d' w'" "content (d_os d) x = Some c"
    and "\<not> prefix (q_watchDir (d_queue d) @ [''.failed'']) x" "\<not> prefix (p_watchDir p @ [''.sent'']) x"
  shows "content (d_os d') x = Some c \<or>
    (\<exists>item. x = Path item \<and>
      ((ws_pos w = SendCounted item \<or> ws_pos w = DialCounted item) \<and>
         q_maxAttempts (d_queue d) \<le> attempts_of (d_queue d) (Filename item) + 1 \<and>
         content (d_os d') (q_watchDir (d_queue d) @ [''.failed'', Filename item]) = Some c \<or>
       ws_pos w = Acked item \<and>
         (p_afterAction p = ''delete'' \<or> content (d_os d') (p_watchDir p @ [''.sent'', Filename item]) = Some c)))"
proof -
  have ne: "x \<noteq> failedDir (d_queue d) @ [n]" "x \<noteq> p_watchDir p @ [''.sent'', n]" for n
    using assms(3,4) by (auto simp: prefix_def failedDir_def)
  have rf: "s = d_os d \<or> q_maxAttempts (d_queue d) \<le> attempts_of (d_queue d) (Filename item) + 1"
    if "RecordFailure srt (d_os d) (d_queue d) (d_tracker d) item = (b, s, q, t)" for item b s q t
    using that by (auto simp: RecordFailure_def Let_def split: if_splits)
  from assms(1) show ?thesis
  proof cases
    case (dial_record item b s q t)
    then show ?thesis
      using RecordFailure_content [OF dial_record(4) assms(2) ne(1)] rf [OF dial_record(4)] assms(2)
      by (auto simp: failedDir_def)
  next
    case (send_record item b s q t)
    then show ?thesis
      using RecordFailure_content [OF send_record(4) assms(2) ne(1)] rf [OF send_record(4)] assms(2)
      by (auto simp: failedDir_def)
  next
    case (archive item)
    have "postCommit p (d_os d) item = (fst (postCommit p (d_os d) item), d_os d')" using archive by simp
    from postCommit_content [OF this assms(2) ne(2)] archive show ?thesis by auto
  qed (use assms(2) transferFile_content in \<open>auto simp: count_error_def complete_def\<close>)
qed

lemma scan_entries_content:
  "scan_entries wd s es st cur sf = (s', r) \<Longrightarrow> content s' = content s"
proof (induction wd s es st cur sf arbitrary: r rule: scan_entries.induct)
  case (2 wd s name e es st cur sf)
  show ?case
  proof (cases "e = Dir \<or> HasPrefix name ''.'' \<or> ValidateFilename name \<noteq> None")
    case True
    with 2 show ?thesis by (auto split: if_splits)
  next
    case False
    obtain r1 s1 where l: "Lstat s (wd @ [name]) = (r1, s1)" by fastforce
    then have "o_fs s1 = o_fs s"
      by (auto simp: Lstat_def dest!: fault_same split: prod.splits option.splits entry.splits)
    then have "content s1 = content s" by (rule content_cong)
    with 2 False l show ?thesis by (auto split: sum.splits prod.splits)
  qed
qed simp

lemma ReadDir_content: "ReadDir s d = (r, s') \<Longrightarrow> content s' = content s"
  by (rule content_cong) (auto simp: ReadDir_def dest!: fault_same split: prod.splits option.splits if_splits)

lemma scanstep_content: "scanstep srt stop d sp d' sp' \<Longrightarrow> content (d_os d') = content (d_os d)"
  by (induction rule: scanstep.induct) (auto dest: ReadDir_content scan_entries_content)

lemma sstep_files:
  assumes "sstep srt p a y z" "content (d_os (y_shared y)) x = Some c" "content (d_os (y_shared z)) x \<noteq> Some c" "a \<noteq> World"
  obtains k where "a = Worker k" "k < length (y_workers y)"
    "wstep srt p (y_shared y) (y_workers y ! k) (y_shared z) (y_workers z ! k)"
  using assms by cases (auto dest!: scanstep_content)


section \<open>One worker by itself\<close>

text \<open>Steps of a single worker while nobody else touches the shared state.\<close>

definition solo :: "(FileItem list \<Rightarrow> FileItem list) \<Rightarrow> ClientPool \<Rightarrow> sender \<times> wstate \<Rightarrow> sender \<times> wstate \<Rightarrow> bool" where
  "solo srt p x y \<longleftrightarrow> wstep srt p (fst x) (snd x) (fst y) (snd y)"

lemma solo_step: "wstep srt p d w d1 w1 \<Longrightarrow> (solo srt p)\<^sup>*\<^sup>* (d1, w1) r \<Longrightarrow> (solo srt p)\<^sup>*\<^sup>* (d, w) r"
  by (rule converse_rtranclp_into_rtranclp) (simp_all add: solo_def)

lemma solo_last: "wstep srt p d w d1 w1 \<Longrightarrow> (solo srt p)\<^sup>*\<^sup>* (d, w) (d1, w1)"
  by (rule r_into_rtranclp) (simp add: solo_def)

definition as_sender :: "bool \<Rightarrow> worker \<Rightarrow> sender" where
  "as_sender stop w = \<lparr>d_os = w_os w, d_queue = w_queue w, d_scanner = w_scanner w, d_tracker = w_tracker w,
     d_stopCh = stop, d_ctxDone = False\<rparr>"

abbreviation at_pos :: "wpos \<Rightarrow> conn option \<Rightarrow> wstate" where
  "at_pos ps c \<equiv> \<lparr>ws_pos = ps, ws_conn = c\<rparr>"

lemma solo_fetch:
  assumes "Pop (w_queue w) (w_tracker w) = Some (Some item, q, t)"
    and "(solo srt p)\<^sup>*\<^sup>* ((as_sender False w)\<lparr>d_queue := q, d_tracker := t\<rparr>, at_pos (Got item) (w_conn w)) r"
  shows "(solo srt p)\<^sup>*\<^sup>* (as_sender False w, at_pos LoopTop (w_conn w)) r"
proof (rule solo_step, rule check_go)
  have "wstep srt p (as_sender False w) (at_pos Popping (w_conn w))
      ((as_sender False w)\<lparr>d_queue := q, d_tracker := t\<rparr>) (at_pos (Got item) (w_conn w))"
    using pop [of "at_pos Popping (w_conn w)" "as_sender False w" item q t] assms(1) by (simp add: as_sender_def)
  from solo_step [OF this assms(2)]
  show "(solo srt p)\<^sup>*\<^sup>* (as_sender False w, (at_pos LoopTop (w_conn w))\<lparr>ws_pos := Popping\<rparr>) r" by simp
qed (simp_all add: as_sender_def)

lemma solo_dial:
  assumes "(case c0 of Some c \<Rightarrow> Inr c | None \<Rightarrow> dialPersistent p cfg dial hs) = Inr c"
    and "(solo srt p)\<^sup>*\<^sup>* (d, at_pos (Got item) (Some c)) r"
  shows "(solo srt p)\<^sup>*\<^sup>* (d, at_pos (Got item) c0) r"
proof (cases c0)
  case None
  with assms(1) have "wstep srt p d (at_pos (Got item) None) d (at_pos (Got item) (Some c))"
    using dial_ok [of "at_pos (Got item) None" item p cfg dial hs c] by simp
  from solo_step [OF this assms(2)] None show ?thesis by simp
qed (use assms in simp)

lemma solo_dial_failed:
  assumes "dialPersistent p cfg dial hs = Inl err"
    and "RecordFailure srt (d_os d) (d_queue d) (map_option (Tracker_RecordError now) (d_tracker d)) item = (b, s, q, t)"
  shows "(solo srt p)\<^sup>*\<^sup>* (d, at_pos (Got item) None) (d\<lparr>d_os := s, d_queue := q, d_tracker := t\<rparr>, at_pos LoopTop None)"
proof (rule solo_step)
  show "wstep srt p d (at_pos (Got item) None) d (at_pos (DialFailed item) None)"
    using dial_fail [of "at_pos (Got item) None" item p cfg dial hs err] assms(1) by simp
  have 1: "wstep srt p d (at_pos (DialFailed item) None) (count_error now d) (at_pos (DialCounted item) None)"
    using dial_count [of "at_pos (DialFailed item) None" item] by simp
  have 2: "wstep srt p (count_error now d) (at_pos (DialCounted item) None)
      (d\<lparr>d_os := s, d_queue := q, d_tracker := t\<rparr>) (at_pos Backoff None)"
    using dial_record [of "at_pos (DialCounted item) None" item srt "count_error now d" b s q t] assms(2)
    by (simp add: count_error_def)
  have 3: "wstep srt p e (at_pos Backoff None) e (at_pos LoopTop None)" for e
    using backoff_over [of "at_pos Backoff None"] by simp
  show "(solo srt p)\<^sup>*\<^sup>* (d, at_pos (DialFailed item) None) (d\<lparr>d_os := s, d_queue := q, d_tracker := t\<rparr>, at_pos LoopTop None)"
    by (rule solo_step [OF 1], rule solo_step [OF 2], rule solo_last [OF 3])
qed

lemma solo_send_failed:
  assumes "transferFile rdf (d_os d) c item = Some (Some err, s, c')"
    and "RecordFailure srt s (d_queue d) (map_option (Tracker_RecordError now) (d_tracker d)) item = (b, s1, q, t)"
  shows "(solo srt p)\<^sup>*\<^sup>* (d, at_pos (Got item) (Some c))
    ((if b then complete (Filename item) else id) (d\<lparr>d_os := s1, d_queue := q, d_tracker := t\<rparr>), at_pos LoopTop None)"
proof (rule solo_step)
  let ?d1 = "d\<lparr>d_os := s\<rparr>" and ?d2 = "d\<lparr>d_os := s1, d_queue := q, d_tracker := t\<rparr>"
  show "wstep srt p d (at_pos (Got item) (Some c)) ?d1 (at_pos (SendFailed item) None)"
    using send_fail [of "at_pos (Got item) (Some c)" item c rdf d err s c'] assms(1) by simp
  have 1: "wstep srt p ?d1 (at_pos (SendFailed item) None) (count_error now ?d1) (at_pos (SendCounted item) None)"
    using send_count [of "at_pos (SendFailed item) None" item] by simp
  have 2: "wstep srt p (count_error now ?d1) (at_pos (SendCounted item) None) ?d2
      (at_pos (if b then Quarantined item else LoopTop) None)"
    using send_record [of "at_pos (SendCounted item) None" item srt "count_error now ?d1" b s1 q t] assms(2)
    by (simp add: count_error_def)
  have 3: "wstep srt p ?d2 (at_pos (Quarantined item) None) (complete (Filename item) ?d2) (at_pos LoopTop None)"
    using send_mark [of "at_pos (Quarantined item) None" item] by simp
  show "(solo srt p)\<^sup>*\<^sup>* (?d1, at_pos (SendFailed item) None)
      ((if b then complete (Filename item) else id) ?d2, at_pos LoopTop None)"
    by (rule solo_step [OF 1], rule solo_step [OF 2]) (use solo_last [OF 3] in simp)
qed

lemma solo_sent:
  assumes "transferFile rdf (d_os d) c item = Some (None, s, c')"
  shows "(solo srt p)\<^sup>*\<^sup>* (d, at_pos (Got item) (Some c))
    ((complete (Filename item) (d\<lparr>d_os := snd (postCommit p s item), d_queue := RecordSuccess (d_queue d) (Filename item)\<rparr>))
       \<lparr>d_tracker := map_option (Tracker_RecordSuccess now (of_int (Size item))) (d_tracker d)\<rparr>, at_pos LoopTop (Some c'))"
proof (rule solo_step)
  let ?d1 = "d\<lparr>d_os := s\<rparr>"
  let ?d2 = "d\<lparr>d_os := snd (postCommit p s item)\<rparr>"
  let ?d3 = "?d2\<lparr>d_queue := RecordSuccess (d_queue d) (Filename item)\<rparr>"
  let ?d4 = "complete (Filename item) ?d3"
  show "wstep srt p d (at_pos (Got item) (Some c)) ?d1 (at_pos (Acked item) (Some c'))"
    using send_ok [of "at_pos (Got item) (Some c)" item c rdf d s c'] assms by simp
  have 1: "wstep srt p ?d1 (at_pos (Acked item) (Some c')) ?d2 (at_pos (Archived item) (Some c'))"
    using archive [of "at_pos (Acked item) (Some c')" item srt p ?d1] by simp
  have 2: "wstep srt p ?d2 (at_pos (Archived item) (Some c')) ?d3 (at_pos (Cleared item) (Some c'))"
    using clear [of "at_pos (Archived item) (Some c')" item srt p ?d2] by simp
  have 3: "wstep srt p ?d3 (at_pos (Cleared item) (Some c')) ?d4 (at_pos (Marked item) (Some c'))"
    using mark [of "at_pos (Cleared item) (Some c')" item srt p ?d3] by simp
  have 4: "wstep srt p ?d4 (at_pos (Marked item) (Some c'))
      (?d4\<lparr>d_tracker := map_option (Tracker_RecordSuccess now (of_int (Size item))) (d_tracker d)\<rparr>) (at_pos LoopTop (Some c'))"
    using count_ok [of "at_pos (Marked item) (Some c')" item srt p ?d4 now] by (simp add: complete_def)
  show "(solo srt p)\<^sup>*\<^sup>* (?d1, at_pos (Acked item) (Some c'))
      (?d4\<lparr>d_tracker := map_option (Tracker_RecordSuccess now (of_int (Size item))) (d_tracker d)\<rparr>, at_pos LoopTop (Some c'))"
    by (rule solo_step [OF 1], rule solo_step [OF 2], rule solo_step [OF 3], rule solo_last [OF 4])
qed


lemma solo_ends:
  assumes "stop \<or> (\<exists>q t. Pop (w_queue w) (w_tracker w) = Some (None, q, t))"
  shows "(solo srt p)\<^sup>*\<^sup>* (as_sender stop w, at_pos LoopTop (w_conn w)) (as_sender stop w, at_pos Gone None)"
proof (cases stop)
  case True
  have "wstep srt p (as_sender True w) (at_pos LoopTop (w_conn w)) (as_sender True w) (at_pos Gone None)"
    using check_stop [of "at_pos LoopTop (w_conn w)" "as_sender True w"] by (simp add: as_sender_def)
  from solo_last [OF this] True show ?thesis by simp
next
  case False
  with assms obtain q t where pop: "Pop (w_queue w) (w_tracker w) = Some (None, q, t)" by blast
  have 1: "wstep srt p (as_sender False w) (at_pos LoopTop (w_conn w)) (as_sender False w) (at_pos Popping (w_conn w))"
    using check_go [of "at_pos LoopTop (w_conn w)" "as_sender False w"] by (simp add: as_sender_def)
  have 2: "wstep srt p (as_sender False w) (at_pos Popping (w_conn w)) (as_sender False w) (at_pos Gone None)"
    using pop_end [of "at_pos Popping (w_conn w)" "as_sender False w" q t] pop by (simp add: as_sender_def)
  from solo_step [OF 1 solo_last [OF 2]] False show ?thesis by simp
qed

lemma worker_alone_aux:
  assumes "worker_iter srt p stop (dialPersistent p cfg dial hs) rdf now w = Some (go, w')"
  shows "(solo srt p)\<^sup>*\<^sup>* (as_sender stop w, at_pos LoopTop (w_conn w))
    (as_sender stop w', at_pos (if go then LoopTop else Gone) (if go then w_conn w' else None))"
  using assms
proof (cases rule: worker_iter_cases)
  case ended
  with solo_ends [OF ended(3), of srt p] show ?thesis by simp
next
  case (undialed item q t err b s1 q1 t1)
  let ?d = "(as_sender False w)\<lparr>d_queue := q, d_tracker := t\<rparr>"
  have "RecordFailure srt (d_os ?d) (d_queue ?d) (map_option (Tracker_RecordError now) (d_tracker ?d)) item = (b, s1, q1, t1)"
    using undialed(6) by (simp add: as_sender_def)
  from solo_dial_failed [OF undialed(5) this]
  have "(solo srt p)\<^sup>*\<^sup>* (?d, at_pos (Got item) (w_conn w)) (as_sender False w', at_pos LoopTop None)"
    by (simp add: undialed(4,7) as_sender_def)
  from solo_fetch [OF undialed(3) this] undialed show ?thesis by simp
next
  case (failed item q t c err s1 c1 b s2 q1 t1)
  let ?d = "(as_sender False w)\<lparr>d_queue := q, d_tracker := t\<rparr>"
  have w': "as_sender False w' = (if b then complete (Filename item) else id) (?d\<lparr>d_os := s2, d_queue := q1, d_tracker := t1\<rparr>)"
    by (simp add: failed(7) complete_def as_sender_def)
  have "transferFile rdf (d_os ?d) c item = Some (Some err, s1, c1)"
    "RecordFailure srt s1 (d_queue ?d) (map_option (Tracker_RecordError now) (d_tracker ?d)) item = (b, s2, q1, t1)"
    using failed(5,6) by (simp_all add: as_sender_def)
  from solo_send_failed [OF this]
  have "(solo srt p)\<^sup>*\<^sup>* (?d, at_pos (Got item) (Some c)) (as_sender False w', at_pos LoopTop None)" by (simp only: w')
  from solo_fetch [OF failed(3) solo_dial [OF failed(4) this]] failed show ?thesis by simp
next
  case (sent item q t c s1 c1)
  let ?d = "(as_sender False w)\<lparr>d_queue := q, d_tracker := t\<rparr>"
  let ?dd = "?d\<lparr>d_os := snd (postCommit p s1 item), d_queue := RecordSuccess (d_queue ?d) (Filename item)\<rparr>"
  have w': "as_sender False w' = (complete (Filename item) ?dd)
      \<lparr>d_tracker := map_option (Tracker_RecordSuccess now (of_int (Size item))) (d_tracker ?d)\<rparr>"
    by (simp add: sent(6) complete_def as_sender_def)
  have "transferFile rdf (d_os ?d) c item = Some (None, s1, c1)" using sent(5) by (simp add: as_sender_def)
  from solo_sent [OF this]
  have "(solo srt p)\<^sup>*\<^sup>* (?d, at_pos (Got item) (Some c)) (as_sender False w', at_pos LoopTop (Some c1))" by (simp only: w')
  from solo_fetch [OF sent(3) solo_dial [OF sent(4) this]] sent show ?thesis by simp
qed

section \<open>One round of the scan loop by itself\<close>

definition solo_scan :: "(FileItem list \<Rightarrow> FileItem list) \<Rightarrow> bool \<Rightarrow> sender \<times> scanpos \<Rightarrow> sender \<times> scanpos \<Rightarrow> bool" where
  "solo_scan srt stop x y \<longleftrightarrow> scanstep srt stop (fst x) (snd x) (fst y) (snd y)"

lemma solo_scan_step:
  "scanstep srt stop d sp d1 sp1 \<Longrightarrow> (solo_scan srt stop)\<^sup>*\<^sup>* (d1, sp1) r \<Longrightarrow> (solo_scan srt stop)\<^sup>*\<^sup>* (d, sp) r"
  by (rule converse_rtranclp_into_rtranclp) (simp_all add: solo_scan_def)

lemma scan_pushes:
  "push_all srt (d_queue d) (d_tracker d) items = (q, t) \<Longrightarrow>
   (solo_scan srt stop)\<^sup>*\<^sup>* (d, Pushing items) (d\<lparr>d_queue := q, d_tracker := t\<rparr>, Ticking)"
proof (induction items arbitrary: d)
  case Nil
  then have "d\<lparr>d_queue := q, d_tracker := t\<rparr> = d" by simp
  with solo_scan_step [OF scan_end rtranclp.rtrancl_refl] show ?case by simp
next
  case (Cons item items)
  obtain q1 t1 where 1: "Push srt (d_queue d) (d_tracker d) item = (q1, t1)" by fastforce
  from Cons.IH [of "d\<lparr>d_queue := q1, d_tracker := t1\<rparr>"] Cons.prems 1
  have "(solo_scan srt stop)\<^sup>*\<^sup>* (d\<lparr>d_queue := q1, d_tracker := t1\<rparr>, Pushing items) (d\<lparr>d_queue := q, d_tracker := t\<rparr>, Ticking)"
    by simp
  with solo_scan_step [OF scan_push [OF 1]] show ?case by blast
qed

text \<open>A round that nobody disturbs, from its start to the ticker, is the function \<^const>\<open>scanOnce\<close>.\<close>

lemma scan_alone:
  assumes sc: "d_scanner d = Some sc" and "scanOnce srt (d_os d) sc (d_queue d) (d_tracker d) = (s', sc', q', t')"
  shows "(solo_scan srt stop)\<^sup>*\<^sup>* (d, ScanDue)
    (d\<lparr>d_os := s', d_scanner := Some sc', d_queue := q', d_tracker := t'\<rparr>, Ticking)"
proof -
  let ?d' = "d\<lparr>d_os := s', d_scanner := Some sc', d_queue := q', d_tracker := t'\<rparr>"
  obtain r s1 where rd: "ReadDir (d_os d) (sc_watchDir sc) = (r, s1)" by fastforce
  note first = solo_scan_step [OF scan_list [OF sc rd]]
  show ?thesis
  proof (cases r)
    case (Inl err)
    with rd assms have "d\<lparr>d_os := s1\<rparr> = ?d'" by (auto simp: scanOnce_def)
    then have "(solo_scan srt stop)\<^sup>*\<^sup>* (d\<lparr>d_os := s1\<rparr>, Ticking) (?d', Ticking)" by simp
    with first Inl show ?thesis by simp
  next
    case (Inr entries)
    obtain s2 states cur sf where
      sce: "scan_entries (sc_watchDir sc) (d_os (d\<lparr>d_os := s1\<rparr>)) entries (sc_states sc) {} [] = (s2, states, cur, sf)"
      by (metis prod_cases4)
    let ?d2 = "(d\<lparr>d_os := s1\<rparr>)\<lparr>d_os := s2, d_scanner := Some (sc\<lparr>sc_states := states |` cur\<rparr>)\<rparr>"
    have "push_all srt (d_queue ?d2) (d_tracker ?d2) (srt sf) = (q', t')" and "?d2\<lparr>d_queue := q', d_tracker := t'\<rparr> = ?d'"
      using assms rd Inr sce by (auto simp: scanOnce_def Let_def)
    from scan_pushes [OF this(1), of stop] this(2)
    have "(solo_scan srt stop)\<^sup>*\<^sup>* (?d2, Pushing (srt sf)) (?d', Ticking)" by metis
    from solo_scan_step [OF scan_states [OF _ sce] this] sc
    have "(solo_scan srt stop)\<^sup>*\<^sup>* (d\<lparr>d_os := s1\<rparr>, Listing entries) (?d', Ticking)" by simp
    with first Inr show ?thesis by simp
  qed
qed

section \<open>Properties of the process\<close>

text \<open>
  C17: shutting down ends. In every reachable state, once \<^verbatim>\<open>ClientPool.Stop\<close> has closed the stop
  channel, the workers can make at most eight more steps each, whatever they were doing and whatever
  the rest of the system does meanwhile; once it has also stopped the queue, no worker that is
  still alive can be blocked; and when its wait is over, every worker has ended.
\<close>

theorem shutdown_ends:
  assumes "(step srt p)\<^sup>*\<^sup>* (send_init s wd m i t) y"
  shows "(d_stopCh (y_shared y) \<longrightarrow>
      remaining y \<le> 8 * nat (p_parallel p) \<and>
      (\<forall>a z. sstep srt p a y z \<longrightarrow> remaining z + (case a of Worker _ \<Rightarrow> 1 | _ \<Rightarrow> 0) \<le> remaining y)) \<and>
    (y_main y = QueueStopped \<longrightarrow>
      (\<forall>k < length (y_workers y). ws_pos (y_workers y ! k) \<noteq> Gone \<longrightarrow> (\<exists>z. sstep srt p (Worker k) y z))) \<and>
    (y_main y \<in> {Waited, Cancelled} \<longrightarrow> (\<forall>w \<in> set (y_workers y). ws_pos w = Gone))"
proof -
  note inv = ssys_reach_inv [OF assms]
  have "remaining y \<le> 8 * nat (p_parallel p)"
    using inv remaining_le [of y] by (simp add: ssys_inv_def)
  moreover have "y_main y \<noteq> Starting" if "d_stopCh (y_shared y)" using inv that by (auto simp: ssys_inv_def)
  moreover have "q_stopped (d_queue (y_shared y))" if "y_main y = QueueStopped"
    using inv that by (auto simp: ssys_inv_def)
  moreover have "y_main y \<in> {Waited, Cancelled} \<longrightarrow> (\<forall>w \<in> set (y_workers y). ws_pos w = Gone)"
    using inv by (simp add: ssys_inv_def)
  ultimately show ?thesis using sstep_work worker_progress by blast
qed

text \<open>
  C3: the sender never drops a file. In every reachable state of the whole process, any step of
  it leaves every file outside the quarantine and archive directories where it is, with its
  content, except in two cases: a worker whose item has used up its attempts moves it into
  quarantine, or a worker that has completely transferred the item and received the ACK for it
  deletes or archives it.
\<close>

theorem process_keeps_files:
  assumes "(step srt p)\<^sup>*\<^sup>* (send_init s (p_watchDir p) m i t) y" "sstep srt p a y z" "a \<noteq> World"
    and "content (d_os (y_shared y)) x = Some c"
    and "\<not> prefix (p_watchDir p @ [''.failed'']) x" "\<not> prefix (p_watchDir p @ [''.sent'']) x"
  shows "content (d_os (y_shared z)) x = Some c \<or>
    (\<exists>k item. a = Worker k \<and> x = Path item \<and>
      ((ws_pos (y_workers y ! k) = SendCounted item \<or> ws_pos (y_workers y ! k) = DialCounted item) \<and>
         q_maxAttempts (d_queue (y_shared y)) \<le> attempts_of (d_queue (y_shared y)) (Filename item) + 1 \<and>
         content (d_os (y_shared z)) (p_watchDir p @ [''.failed'', Filename item]) = Some c \<or>
       ws_pos (y_workers y ! k) = Acked item \<and> delivered (y_workers y ! k) item \<and>
         (p_afterAction p = ''delete'' \<or>
          content (d_os (y_shared z)) (p_watchDir p @ [''.sent'', Filename item]) = Some c)))"
proof (cases "content (d_os (y_shared z)) x = Some c")
  case False
  note inv = ssys_reach_inv [OF assms(1)]
  then have wd: "q_watchDir (d_queue (y_shared y)) = p_watchDir p" by (simp add: ssys_inv_def)
  from assms(2,4) False assms(3) obtain k where k: "a = Worker k" "k < length (y_workers y)"
    and step: "wstep srt p (y_shared y) (y_workers y ! k) (y_shared z) (y_workers z ! k)"
    by (rule sstep_files)
  have "delivered (y_workers y ! k) item" if "ws_pos (y_workers y ! k) = Acked item" for item
    using inv k(2) that by (simp add: ssys_inv_def)
  with wstep_files [OF step assms(4)] assms(5,6) False wd k(1) show ?thesis by auto
qed simp


section \<open>A run\<close>

lemma step_more: "(step srt p)\<^sup>*\<^sup>* x y \<Longrightarrow> sstep srt p a y z \<Longrightarrow> (step srt p)\<^sup>*\<^sup>* x z"
  by (rule rtranclp.rtrancl_into_rtrancl) (auto simp: step_def)

definition demo_start :: ssys where
  "demo_start = send_init demo_source [''out''] 3 1 None"

lemma demo_start_sel: "y_workers demo_start = []" "y_main demo_start = Starting" "y_wg demo_start = 0"
    "y_scan demo_start = ScanDue" "\<not> d_stopCh (y_shared demo_start)"
  by (simp_all add: demo_start_def send_init_def split: prod.splits)

lemma demo_pool: "p_parallel strand_pool = 1" "p_watchDir strand_pool = [''out'']"
  by (simp_all add: strand_pool_def NewClientPool_def)

theorem shutdown_ends_witness:
  "\<exists>y. (step (sort_key ModTime) strand_pool)\<^sup>*\<^sup>* demo_start y \<and> d_stopCh (y_shared y) \<and> length (y_workers y) = 1 \<and>
    remaining y \<le> 8 \<and> (\<forall>k z. sstep (sort_key ModTime) strand_pool (Worker k) y z \<longrightarrow> remaining z < remaining y)"
proof -
  let ?srt = "sort_key ModTime" and ?p = strand_pool
  define y1 where "y1 = demo_start\<lparr>y_workers := [\<lparr>ws_pos = LoopTop, ws_conn = None\<rparr>], y_wg := 1\<rparr>"
  define y2 where "y2 = y1\<lparr>y_main := Serving\<rparr>"
  define y3 where "y3 = y2\<lparr>y_main := ScannerStopped, y_scanStop := True\<rparr>"
  define y4 where "y4 = y3\<lparr>y_main := ChannelClosed, y_shared := (y_shared y3)\<lparr>d_stopCh := True\<rparr>\<rparr>"
  have 1: "sstep ?srt ?p Main demo_start y1"
    using spawn [of demo_start ?p ?srt] by (simp add: y1_def demo_start_sel demo_pool)
  have 2: "sstep ?srt ?p Main y1 y2"
    using started [of y1 ?p ?srt] by (simp add: y1_def y2_def demo_start_sel demo_pool)
  have 3: "sstep ?srt ?p Main y2 y3" using signal [of y2 ?srt ?p] by (simp add: y2_def y3_def)
  have 4: "sstep ?srt ?p Main y3 y4" using close_channel [of y3 ?srt ?p] by (simp add: y3_def y4_def)
  have run: "(step ?srt ?p)\<^sup>*\<^sup>* demo_start y4"
    by (rule step_more [OF step_more [OF step_more [OF step_more [OF rtranclp.rtrancl_refl 1] 2] 3] 4])
  have stop: "d_stopCh (y_shared y4)" "length (y_workers y4) = 1"
    by (simp_all add: y4_def y3_def y2_def y1_def)
  note ends = conjunct1 [OF shutdown_ends [OF run [unfolded demo_start_def]], THEN mp, OF stop(1)]
  then have "remaining y4 \<le> 8" by (simp add: demo_pool)
  moreover have "remaining z < remaining y4" if "sstep ?srt ?p (Worker k) y4 z" for k z
    using conjunct2 [OF ends, rule_format, OF that] by simp
  ultimately show ?thesis using run stop by blast
qed

theorem process_keeps_files_witness:
  "\<exists>z. sstep (sort_key ModTime) strand_pool Scanner demo_start z \<and> y_scan z = Listing [(''report.csv'', Ino 0)] \<and>
    content (d_os (y_shared z)) [''out'', ''report.csv''] = Some [1, 2, 3]"
proof -
  obtain s1 q t1 where nq: "NewQueue demo_source [''out''] 3 None = (s1, q, t1)" by (metis prod_cases3)
  have ds: "o_faults demo_source = []" by (simp add: demo_source_def)
  have "s1 = demo_source"
    using nq ds by (auto simp: NewQueue_def updateFailedCount_def ReadDir_def fault_quiet Let_def split: if_splits)
  with nq have os: "d_os (y_shared demo_start) = demo_source" "d_scanner (y_shared demo_start) = Some (NewScanner [''out''] 1)"
    by (simp_all add: demo_start_def send_init_def)
  have rd: "ReadDir demo_source (sc_watchDir (NewScanner [''out''] 1)) = (Inr [(''report.csv'', Ino 0)], demo_source)"
  proof -
    have "names_in demo_source [''out''] = [''report.csv'']" "is_dir demo_source [''out'']"
      "ent demo_source [''out'', ''report.csv''] = Some (Ino 0)" by code_simp+
    then show ?thesis by (simp add: ReadDir_def fault_quiet [OF ds] NewScanner_def)
  qed
  from scan_list [OF os(2) rd [folded os(1)]]
  have "scanstep (sort_key ModTime) (y_scanStop demo_start) (y_shared demo_start) (y_scan demo_start)
      (y_shared demo_start) (Listing [(''report.csv'', Ino 0)])" by (simp add: demo_start_sel)
  from scan [OF this] obtain z where
    z: "sstep (sort_key ModTime) strand_pool Scanner demo_start z" "y_scan z = Listing [(''report.csv'', Ino 0)]" by force
  have "content (d_os (y_shared demo_start)) [''out'', ''report.csv''] = Some [1, 2, 3]"
    using demo_source_content by (simp add: os demo_item_def)
  with process_keeps_files [of "sort_key ModTime" strand_pool demo_source 3 1 None demo_start Scanner z] z
  show ?thesis by (auto simp: demo_pool demo_start_def prefix_def)
qed


end
