(* ===== verification/Go_Strings.thy ===== *)
theory Go_Strings
  imports Prelude
begin

text \<open>
  The functions of Go's package \<^verbatim>\<open>strings\<close> that the configuration code uses, on byte strings:
  \<^verbatim>\<open>TrimSpace\<close>, \<^verbatim>\<open>ToLower\<close>, \<^verbatim>\<open>ToUpper\<close>, \<^verbatim>\<open>Split\<close> and \<^verbatim>\<open>Join\<close> with a one-byte separator.
  The Unicode case tables are not written out: on a string with a byte outside ASCII the case
  mappings are the parameter \<open>uni\<close>; on ASCII strings they are defined here.
\<close>

section \<open>White space\<close>

text \<open>
  The UTF-8 encodings of the code points that \<^verbatim>\<open>unicode.IsSpace\<close> accepts. No encoding is a
  prefix or a suffix of another, so at most one matches at either end of a string.
\<close>

definition chars :: "nat list \<Rightarrow> string" where
  "chars = map char_of"

definition spaces :: "string list" where
  "spaces =
     map (\<lambda>n. chars [n]) [9, 10, 11, 12, 13, 32] @ map chars [[0xC2, 0x85], [0xC2, 0xA0], [0xE1, 0x9A, 0x80]] @
     map (\<lambda>n. chars [0xE2, 0x80, n]) ([0x80..<0x8B] @ [0xA8, 0xA9, 0xAF]) @
     map chars [[0xE2, 0x81, 0x9F], [0xE3, 0x80, 0x80]]"

function trim :: "string list \<Rightarrow> string \<Rightarrow> string" where
  "trim ps s =
     (case find (\<lambda>p. p \<noteq> [] \<and> HasPrefix s p) ps of None \<Rightarrow> s | Some p \<Rightarrow> trim ps (drop (length p) s))"
  by auto

termination
proof (relation "measure (length \<circ> snd)")
  fix ps s p
  assume "find (\<lambda>p. p \<noteq> [] \<and> HasPrefix s p) ps = Some p"
  then have "p \<noteq> []" "take (length p) s = p" by (auto simp: find_Some_iff HasPrefix_def)
  then have "s \<noteq> []" by auto
  with \<open>p \<noteq> []\<close> show "((ps, drop (length p) s), ps, s) \<in> measure (length \<circ> snd)" by simp
qed simp

declare trim.simps [simp del]

definition TrimSpace :: "string \<Rightarrow> string" where
  "TrimSpace s = rev (trim (map rev spaces) (rev (trim spaces s)))"

section \<open>Case\<close>

definition ascii :: "char \<Rightarrow> bool" where
  "ascii c \<longleftrightarrow> of_char c < (128 :: nat)"

definition lower :: "char \<Rightarrow> char" where
  "lower c = (let n = of_char c :: nat in if 65 \<le> n \<and> n \<le> 90 then char_of (n + 32) else c)"

definition upper :: "char \<Rightarrow> char" where
  "upper c = (let n = of_char c :: nat in if 97 \<le> n \<and> n \<le> 122 then char_of (n - 32) else c)"

definition ToLower :: "(string \<Rightarrow> string) \<Rightarrow> string \<Rightarrow> string" where
  "ToLower uni s = (if list_all ascii s then map lower s else uni s)"

definition ToUpper :: "(string \<Rightarrow> string) \<Rightarrow> string \<Rightarrow> string" where
  "ToUpper uni s = (if list_all ascii s then map upper s else uni s)"

section \<open>Splitting and joining\<close>

fun Split :: "char \<Rightarrow> string \<Rightarrow> string list" where
  "Split sep [] = [[]]"
| "Split sep (c # s) =
     (if c = sep then [] # Split sep s
      else (case Split sep s of [] \<Rightarrow> [[c]] | p # ps \<Rightarrow> (c # p) # ps))"

fun Join :: "string list \<Rightarrow> string \<Rightarrow> string" where
  "Join [] sep = []"
| "Join [s] sep = s"
| "Join (s # t # ss) sep = s @ sep @ Join (t # ss) sep"

lemma Split_not_Nil [simp]: "Split sep s \<noteq> []"
  by (induction s) (auto split: list.splits)

lemma Split_no_sep: "sep \<notin> set s \<Longrightarrow> Split sep s = [s]"
  by (induction s) auto

lemma Split_append: "sep \<notin> set s \<Longrightarrow> Split sep (s @ sep # t) = s # Split sep t"
  by (induction s) auto

lemma Split_parts: "p \<in> set (Split sep s) \<Longrightarrow> sep \<notin> set p \<and> set p \<subseteq> set s"
proof (induction s arbitrary: p)
  case (Cons c s)
  then show ?case by (cases "Split sep s") (fastforce split: if_splits)+
qed simp

text \<open>Splitting undoes joining, for parts without the separator.\<close>

lemma Split_Join:
  "ps \<noteq> [] \<Longrightarrow> \<forall>p \<in> set ps. sep \<notin> set p \<Longrightarrow> Split sep (Join ps [sep]) = ps"
  by (induction ps "[sep]" rule: Join.induct) (auto simp: Split_no_sep Split_append)

lemma Join_Split: "Join (Split sep s) [sep] = s"
proof (induction s)
  case (Cons c s)
  then show ?case by (cases "Split sep s" rule: list.exhaust; cases "tl (Split sep s)") auto
qed simp

section \<open>Strings that need no trimming\<close>

lemma spaces_shape: "p \<in> set spaces \<Longrightarrow> p \<noteq> [] \<and> \<not> (33 \<le> (of_char (hd p) :: nat) \<and> of_char (hd p) < (128 :: nat)) \<and>
    \<not> (33 \<le> (of_char (last p) :: nat) \<and> of_char (last p) < (128 :: nat))"
  unfolding spaces_def chars_def by (auto simp: upt_rec)

definition visible_ascii :: "char \<Rightarrow> bool" where
  "visible_ascii c \<longleftrightarrow> 33 \<le> (of_char c :: nat) \<and> of_char c < (128 :: nat)"

lemma trim_id:
  assumes "s = [] \<or> visible_ascii (hd s)" "\<And>p. p \<in> set ps \<Longrightarrow> p \<noteq> [] \<Longrightarrow> \<not> visible_ascii (hd p)"
  shows "trim ps s = s"
proof -
  have "find (\<lambda>p. p \<noteq> [] \<and> HasPrefix s p) ps = None"
  proof (rule ccontr)
    assume "find (\<lambda>p. p \<noteq> [] \<and> HasPrefix s p) ps \<noteq> None"
    then obtain p where p: "p \<in> set ps" "p \<noteq> []" "take (length p) s = p"
      by (auto simp: find_None_iff HasPrefix_def)
    then have "hd s = hd p" "s \<noteq> []" by (metis hd_take length_greater_0_conv, auto)
    with assms p show False by auto
  qed
  then show ?thesis by (subst trim.simps) simp
qed

lemma TrimSpace_id:
  assumes "s = [] \<or> visible_ascii (hd s) \<and> visible_ascii (last s)"
  shows "TrimSpace s = s"
proof -
  have sp: "\<not> visible_ascii (hd p)" "\<not> visible_ascii (last p)" if "p \<in> set spaces" for p
    using spaces_shape [OF that] by (auto simp: visible_ascii_def)
  have "trim spaces s = s" using assms sp by (intro trim_id) auto
  moreover have "trim (map rev spaces) (rev s) = rev s"
    using assms sp by (intro trim_id) (auto simp: hd_rev)
  ultimately show ?thesis by (simp add: TrimSpace_def)
qed

text \<open>Case mappings of ASCII strings.\<close>

lemma ToLower_ascii: "list_all ascii s \<Longrightarrow> ToLower uni s = map lower s"
  by (simp add: ToLower_def)

lemma ToUpper_ascii: "list_all ascii s \<Longrightarrow> ToUpper uni s = map upper s"
  by (simp add: ToUpper_def)

lemma lower_upper: "lower (upper c) = lower c"
proof -
  have "of_char c < (256 :: nat)" by (simp add: of_char_def)
  then show ?thesis by (auto simp: lower_def upper_def Let_def)
qed

lemma lower_visible: "visible_ascii c \<Longrightarrow> visible_ascii (lower c)"
  by (auto simp: lower_def visible_ascii_def Let_def)

lemma lower_ascii: "ascii c \<Longrightarrow> ascii (lower c)"
  by (auto simp: lower_def ascii_def Let_def)

end
