(* ===== verification/Tls_Verify.thy ===== *)
theory Tls_Verify
  imports Go_Strings Go_IO Sha256
begin

text \<open>
  Certificate pinning, \<^verbatim>\<open>internal/tlsutil/verify.go\<close> and \<^verbatim>\<open>FingerprintDER\<close> of
  \<^verbatim>\<open>internal/tlsutil/certs.go\<close>: fingerprints as users write them are normalised and compared
  with the SHA-256 fingerprint of the certificate the peer presents. Loading a key pair is the
  parameter \<open>load\<close>; its result is opaque.
\<close>

section \<open>Fingerprints\<close>

definition ErrNoPeerCert :: error where "ErrNoPeerCert = New ''no peer certificate presented''"
definition ErrPeerCertNotPinned :: error where "ErrPeerCertNotPinned = New ''peer certificate fingerprint not recognized''"
definition ErrNoAllowedPeers :: error where "ErrNoAllowedPeers = New ''no allowed peer fingerprints configured''"

definition FingerprintDER :: "byte list \<Rightarrow> string" where
  "FingerprintDER der = EncodeToString (sha256 der)"

definition NormalizeFingerprint :: "(string \<Rightarrow> string) \<Rightarrow> string \<Rightarrow> string" where
  "NormalizeFingerprint uni fp =
     (let fp1 = filter (\<lambda>c. c \<noteq> CHR '':'') fp; fp2 = filter (\<lambda>c. c \<noteq> CHR '' '') fp1
      in ToLower uni (TrimSpace fp2))"

fun parse_parts :: "(string \<Rightarrow> string) \<Rightarrow> string list \<Rightarrow> string list \<Rightarrow> string list" where
  "parse_parts uni [] result = result"
| "parse_parts uni (part # parts) result =
     (let norm = NormalizeFingerprint uni part
      in parse_parts uni parts (if norm \<noteq> '''' then result @ [norm] else result))"

fun parse_items :: "(string \<Rightarrow> string) \<Rightarrow> string list \<Rightarrow> string list \<Rightarrow> string list" where
  "parse_items uni [] result = result"
| "parse_items uni (item # items) result = parse_items uni items (parse_parts uni (Split (CHR '','') item) result)"

definition ParseFingerprints :: "(string \<Rightarrow> string) \<Rightarrow> string list \<Rightarrow> string list" where
  "ParseFingerprints uni list = parse_items uni list []"

text \<open>\<^verbatim>\<open>subtle.ConstantTimeCompare\<close>: it looks at every byte, and there is no early exit.\<close>

definition ConstantTimeCompare :: "byte list \<Rightarrow> byte list \<Rightarrow> int" where
  "ConstantTimeCompare x y =
     (if length x \<noteq> length y then 0
      else if fold (\<lambda>(a, b) v. v OR (a XOR b)) (zip x y) 0 = 0 then 1 else 0)"

fun match_pin :: "byte list \<Rightarrow> string list \<Rightarrow> bool" where
  "match_pin peerFPBytes [] = False"
| "match_pin peerFPBytes (allowed # rest) =
     (let allowedBytes = bytes_of allowed in
      if length peerFPBytes = length allowedBytes \<and> ConstantTimeCompare peerFPBytes allowedBytes = 1 then True
      else match_pin peerFPBytes rest)"

definition MakeVerifyPeerCertificate :: "(string \<Rightarrow> string) \<Rightarrow> string list \<Rightarrow> byte list list \<Rightarrow> error option" where
  "MakeVerifyPeerCertificate uni allowedFingerprints =
     (let normalizedAllowed = ParseFingerprints uni allowedFingerprints in
      (\<lambda>rawCerts.
         case rawCerts of
           [] \<Rightarrow> Some ErrNoPeerCert
         | der # _ \<Rightarrow>
             if length normalizedAllowed = 0 then Some ErrNoAllowedPeers
             else
               (let peerFP = FingerprintDER der in
                if \<not> match_pin (bytes_of peerFP) normalizedAllowed
                then Some (Wrap '''' ErrPeerCertNotPinned ('': presented '' @ peerFP))
                else None)))"

section \<open>TLS configurations\<close>

datatype client_auth = NoClientCert | RequireAnyClientCert

record 'cert tls_config =
  Certificates :: "'cert list"
  MinVersion :: u16
  ClientAuth :: client_auth
  InsecureSkipVerify :: bool
  VerifyPeerCertificate :: "byte list list \<Rightarrow> error option"

definition VersionTLS13 :: u16 where "VersionTLS13 = 0x0304"

definition NewServerTLSConfig ::
  "(string \<Rightarrow> string) \<Rightarrow> (string \<Rightarrow> string \<Rightarrow> error + 'cert) \<Rightarrow> string \<Rightarrow> string \<Rightarrow> string list \<Rightarrow> error + 'cert tls_config"
where
  "NewServerTLSConfig uni load certFile keyFile allowedPeerFingerprints =
     (case load certFile keyFile of
        Inl err \<Rightarrow> Inl (Wrap ''failed to load server keypair: '' err '''')
      | Inr cert \<Rightarrow>
          Inr \<lparr>Certificates = [cert], MinVersion = VersionTLS13, ClientAuth = RequireAnyClientCert,
               InsecureSkipVerify = True,
               VerifyPeerCertificate = MakeVerifyPeerCertificate uni allowedPeerFingerprints\<rparr>)"

definition NewClientTLSConfig ::
  "(string \<Rightarrow> string) \<Rightarrow> (string \<Rightarrow> string \<Rightarrow> error + 'cert) \<Rightarrow> string \<Rightarrow> string \<Rightarrow> string list \<Rightarrow> error + 'cert tls_config"
where
  "NewClientTLSConfig uni load certFile keyFile allowedPeerFingerprints =
     (case (if certFile \<noteq> '''' \<and> keyFile \<noteq> '''' then map_sum id (\<lambda>cert. [cert]) (load certFile keyFile) else Inr []) of
        Inl err \<Rightarrow> Inl (Wrap ''failed to load client keypair: '' err '''')
      | Inr certs \<Rightarrow>
          Inr \<lparr>Certificates = certs, MinVersion = VersionTLS13, ClientAuth = NoClientCert,
               InsecureSkipVerify = True,
               VerifyPeerCertificate = MakeVerifyPeerCertificate uni allowedPeerFingerprints\<rparr>)"

section \<open>Parsing and matching\<close>

lemma parse_parts_eq: "parse_parts uni ps r = r @ filter (\<lambda>n. n \<noteq> '''') (map (NormalizeFingerprint uni) ps)"
  by (induction ps arbitrary: r) (auto simp: Let_def)

lemma parse_items_eq:
  "parse_items uni is r =
     r @ concat (map (\<lambda>i. filter (\<lambda>n. n \<noteq> '''') (map (NormalizeFingerprint uni) (Split (CHR '','') i))) is)"
  by (induction "is" arbitrary: r) (auto simp: parse_parts_eq)

lemma ParseFingerprints_eq:
  "ParseFingerprints uni is =
     concat (map (\<lambda>i. filter (\<lambda>n. n \<noteq> '''') (map (NormalizeFingerprint uni) (Split (CHR '','') i))) is)"
  by (simp add: ParseFingerprints_def parse_items_eq)

lemma xor_zero_iff: "a XOR b = 0 \<longleftrightarrow> a = (b :: byte)"
  by (metis xor_self_eq xor.assoc xor.left_neutral xor.right_neutral)

lemma fold_OR_zero:
  fixes v :: byte
  shows "fold (\<lambda>(a, b) v. v OR (a XOR b)) ps v = 0 \<longleftrightarrow> v = 0 \<and> (\<forall>(a, b) \<in> set ps. a = b)"
  by (induction ps arbitrary: v) (auto simp: or_eq_0_iff xor_zero_iff split: prod.splits)

lemma zip_all_eq: "length x = length y \<Longrightarrow> (\<forall>(a, b) \<in> set (zip x y). a = b) \<longleftrightarrow> x = y"
  by (induction x y rule: list_induct2) auto

lemma ConstantTimeCompare_iff: "ConstantTimeCompare x y = 1 \<longleftrightarrow> x = y"
  by (auto simp: ConstantTimeCompare_def fold_OR_zero zip_all_eq)

lemma match_pin_iff: "match_pin (bytes_of fp) ps \<longleftrightarrow> fp \<in> set ps"
proof -
  have "bytes_of a = bytes_of b \<longleftrightarrow> a = b" for a b by (metis string_of_bytes_of)
  then show ?thesis
    by (induction ps) (auto simp: ConstantTimeCompare_iff Let_def dest: arg_cong [of _ _ length])
qed

text \<open>A certificate is pinned when some part of some configured item normalises to its fingerprint.\<close>

definition pinned :: "(string \<Rightarrow> string) \<Rightarrow> string list \<Rightarrow> byte list \<Rightarrow> bool" where
  "pinned uni allowed der \<longleftrightarrow>
     (\<exists>item \<in> set allowed. \<exists>part \<in> set (Split (CHR '','') item).
        NormalizeFingerprint uni part = EncodeToString (sha256 der))"

lemma FingerprintDER_nonempty: "FingerprintDER der \<noteq> ''''"
proof
  assume "FingerprintDER der = ''''"
  then have "length (FingerprintDER der) = 0" by simp
  then show False by (simp add: FingerprintDER_def length_sha256)
qed

lemma pinned_parsed: "pinned uni allowed der \<longleftrightarrow> FingerprintDER der \<in> set (ParseFingerprints uni allowed)"
  using FingerprintDER_nonempty [of der]
  by (auto simp: pinned_def ParseFingerprints_eq FingerprintDER_def image_iff) metis+

lemma verify_pinned:
  "MakeVerifyPeerCertificate uni allowed rawCerts = None \<longleftrightarrow> (\<exists>der rest. rawCerts = der # rest \<and> pinned uni allowed der)"
proof (cases rawCerts)
  case (Cons der rest)
  then show ?thesis
    by (cases "ParseFingerprints uni allowed = []")
       (auto simp: MakeVerifyPeerCertificate_def match_pin_iff pinned_parsed Let_def)
qed (simp add: MakeVerifyPeerCertificate_def Let_def)

section \<open>Fingerprints as they are displayed\<close>

text \<open>
  A string displays a digest when it is its hexadecimal form in any mix of cases, with colons and
  spaces anywhere.
\<close>

definition displays :: "string \<Rightarrow> byte list \<Rightarrow> bool" where
  "displays s d \<longleftrightarrow> map lower (filter (\<lambda>c. c \<noteq> CHR '':'' \<and> c \<noteq> CHR '' '') s) = EncodeToString d"

lemma hex_digit_code: "n < 16 \<Longrightarrow> (of_char (hex_digit n) :: nat) \<in> {48..57} \<union> {97..102}"
  by (auto simp: hex_digit_def)

lemma hex_codes: "c \<in> set (EncodeToString d) \<Longrightarrow> (of_char c :: nat) \<in> {48..57} \<union> {97..102}"
proof -
  assume "c \<in> set (EncodeToString d)"
  then obtain b where "b \<in> set d" "c = hex_digit (unat b div 16) \<or> c = hex_digit (unat b mod 16)"
    by (auto simp: EncodeToString_def)
  moreover have "unat b div 16 < 16" "unat b mod 16 < 16" using unat_byte_less [of b] by simp_all
  ultimately show ?thesis using hex_digit_code by blast
qed

lemma displays_chars:
  assumes "displays s d" "c \<in> set s" "c \<noteq> CHR '':''" "c \<noteq> CHR '' ''"
  shows "ascii c \<and> visible_ascii c \<and> c \<noteq> CHR '',''"
proof -
  have "c \<in> set (filter (\<lambda>c. c \<noteq> CHR '':'' \<and> c \<noteq> CHR '' '') s)" using assms by simp
  then have "lower c \<in> set (map lower (filter (\<lambda>c. c \<noteq> CHR '':'' \<and> c \<noteq> CHR '' '') s))"
    unfolding list.set_map by (rule imageI)
  then have "lower c \<in> set (EncodeToString d)" using assms(1) by (simp only: displays_def)
  then have l: "(of_char (lower c) :: nat) \<in> {48..57} \<union> {97..102}" by (rule hex_codes)
  have "(of_char c :: nat) < 256" by (simp add: of_char_def)
  with l have "48 \<le> (of_char c :: nat) \<and> of_char c < (128 :: nat)"
    by (auto simp: lower_def Let_def split: if_splits)
  then show ?thesis by (auto simp: ascii_def visible_ascii_def)
qed

lemma Normalize_displays:
  assumes "displays s d"
  shows "NormalizeFingerprint uni s = EncodeToString d" "CHR '','' \<notin> set s"
proof -
  let ?f = "filter (\<lambda>c. c \<noteq> CHR '':'' \<and> c \<noteq> CHR '' '') s"
  have c: "ascii c \<and> visible_ascii c \<and> c \<noteq> CHR '',''" if "c \<in> set ?f" for c
    using that displays_chars [OF assms, of c] by simp
  have "TrimSpace ?f = ?f"
  proof (rule TrimSpace_id)
    show "?f = [] \<or> visible_ascii (hd ?f) \<and> visible_ascii (last ?f)"
      using c [OF hd_in_set] c [OF last_in_set] by blast
  qed
  moreover have "list_all ascii ?f" using c by (auto simp: list_all_iff)
  ultimately show "NormalizeFingerprint uni s = EncodeToString d"
    using assms by (simp add: NormalizeFingerprint_def displays_def ToLower_ascii Let_def conj_commute)
  show "CHR '','' \<notin> set s"
    using displays_chars [OF assms, of "CHR '',''"] by auto
qed

lemma filter_nonempty_codes:
  "list_all (\<lambda>d. d \<noteq> []) ds \<Longrightarrow> filter (\<lambda>n. n \<noteq> '''') (map EncodeToString ds) = map EncodeToString ds"
  by (induction ds) (auto simp: EncodeToString_def)

lemma parse_displayed:
  assumes "list_all2 displays ss ds" "ds \<noteq> []" "list_all (\<lambda>d. d \<noteq> []) ds"
  shows "ParseFingerprints uni [Join ss '','']  = map EncodeToString ds"
proof -
  have "ss \<noteq> []" using assms(1,2) by auto
  moreover have "\<forall>p \<in> set ss. CHR '','' \<notin> set p"
    using assms(1) by (induction rule: list_all2_induct) (auto dest: Normalize_displays(2))
  ultimately have "Split (CHR '','') (Join ss '','') = ss" by (rule Split_Join)
  moreover have "map (NormalizeFingerprint uni) ss = map EncodeToString ds"
    using assms(1) by (induction rule: list_all2_induct) (simp_all add: Normalize_displays)
  ultimately show ?thesis using assms(3) by (simp add: ParseFingerprints_eq filter_nonempty_codes)
qed

section \<open>Properties\<close>

text \<open>
  C15: the verification callback, for every configuration and every list of certificates. A peer is
  accepted exactly when it presents a certificate whose SHA-256 fingerprint is one of the
  configured ones after normalisation; only the first certificate counts; without a certificate or
  without a configured fingerprint everybody is refused, each with its own error.
\<close>

theorem peer_accepted_iff_pinned:
  "MakeVerifyPeerCertificate uni allowed rawCerts =
     (case rawCerts of
        [] \<Rightarrow> Some ErrNoPeerCert
      | der # _ \<Rightarrow>
          if pinned uni allowed der then None
          else if ParseFingerprints uni allowed = [] then Some ErrNoAllowedPeers
          else Some (Wrap '''' ErrPeerCertNotPinned ('': presented '' @ FingerprintDER der)))"
proof (cases rawCerts)
  case (Cons der rest)
  have "pinned uni allowed der \<Longrightarrow> ParseFingerprints uni allowed \<noteq> []" by (auto simp: pinned_parsed)
  with Cons show ?thesis
    by (auto simp: MakeVerifyPeerCertificate_def match_pin_iff pinned_parsed Let_def)
qed (simp add: MakeVerifyPeerCertificate_def Let_def)

text \<open>
  C28: fingerprints can be given the way tools display them. A comma-separated list of displayed
  digests, in upper or lower case, with or without colons and spaces, parses to exactly these
  digests in lower-case hexadecimal; a peer is then accepted exactly when its certificate has one
  of these digests.
\<close>

theorem displayed_fingerprints_accepted:
  assumes "list_all2 displays ss ds" "ds \<noteq> []" "list_all (\<lambda>d. d \<noteq> []) ds"
  shows "ParseFingerprints uni [Join ss '',''] = map EncodeToString ds \<and>
    (MakeVerifyPeerCertificate uni [Join ss '',''] (der # rest) = None \<longleftrightarrow> sha256 der \<in> set ds)"
proof -
  note p = parse_displayed [OF assms, of uni]
  have "FingerprintDER der \<in> set (map EncodeToString ds) \<longleftrightarrow> sha256 der \<in> set ds"
    by (auto simp: FingerprintDER_def EncodeToString_inj)
  with p show ?thesis using verify_pinned [of uni "[Join ss '','']" "der # rest"] by (simp add: pinned_parsed)
qed

text \<open>
  A single pin binds the certificate: two certificates that are both accepted under one
  configured fingerprint have the same SHA-256 digest, so another certificate than the pinned one
  gets in only with a collision.
\<close>

theorem one_pin_one_digest:
  assumes "CHR '','' \<notin> set pin"
    and "MakeVerifyPeerCertificate uni [pin] (der # rest) = None" "MakeVerifyPeerCertificate uni [pin] (der' # rest') = None"
  shows "sha256 der = sha256 der'"
  using assms by (auto simp: verify_pinned pinned_def Split_no_sep EncodeToString_inj dest!: sym)

section \<open>Witnesses\<close>

lemma displays_upper: "displays ''AB:cd 0f'' [0xab, 0xcd, 0x0f]"
  by code_simp

theorem displayed_fingerprints_accepted_witness:
  "ParseFingerprints (\<lambda>s. s) [''AB:cd 0f''] = [''abcd0f''] \<and>
    (MakeVerifyPeerCertificate (\<lambda>s. s) [''AB:cd 0f''] [[]] = None \<longleftrightarrow> sha256 [] = [0xab, 0xcd, 0x0f])"
proof -
  have "map EncodeToString [[0xab, 0xcd, 0x0f]] = [''abcd0f'']" by code_simp
  with displayed_fingerprints_accepted [of "[''AB:cd 0f'']" "[[0xab, 0xcd, 0x0f]]" "\<lambda>s. s" "[]" "[]"] displays_upper
  show ?thesis by simp
qed

text \<open>The pin of a certificate is its fingerprint.\<close>

lemma own_fingerprint: "MakeVerifyPeerCertificate uni [FingerprintDER der] (der # rest) = None"
proof -
  have "map lower (EncodeToString d) = EncodeToString d" for d
    using hex_codes by (intro map_idI) (fastforce simp: lower_def Let_def)
  moreover have "filter (\<lambda>c. c \<noteq> CHR '':'' \<and> c \<noteq> CHR '' '') (EncodeToString d) = EncodeToString d" for d
    using hex_codes by (intro filter_True) fastforce
  ultimately have "displays (FingerprintDER der) (sha256 der)" by (simp add: displays_def FingerprintDER_def)
  from Normalize_displays [OF this] show ?thesis by (simp add: verify_pinned pinned_def Split_no_sep)
qed

theorem one_pin_one_digest_witness:
  "MakeVerifyPeerCertificate (\<lambda>s. s) [FingerprintDER [1]] [[1]] = None \<and>
   MakeVerifyPeerCertificate (\<lambda>s. s) [FingerprintDER [1]] [[1], [2]] = None \<and> sha256 [1] = sha256 [1]"
proof -
  have "CHR '','' \<notin> set (FingerprintDER [1])" using hex_codes by (fastforce simp: FingerprintDER_def)
  from one_pin_one_digest [OF this own_fingerprint own_fingerprint] own_fingerprint show ?thesis by blast
qed

end
