(* ===== verification/Float64.thy ===== *)
theory Float64
  imports Complex_Main Prelude "HOL-Library.Log_Nat"
begin

text \<open>
  The \<^verbatim>\<open>float64\<close> arithmetic that the program uses: on non-negative values, with conversions
  from integers, products, quotients and truncation. A finite value is the rational number it
  stands for and every operation is the exact one followed by \<open>rnd\<close>, rounding to 53 bits, to
  nearest with ties to even, with the subnormal range below; a result of \<open>2 ^ 1024\<close> or more
  stands for infinity.
\<close>

section \<open>Rounding\<close>

text \<open>\<open>ilog2 x\<close> is the exponent of the binade of a positive \<open>x\<close>.\<close>

definition ilog2 :: "rat \<Rightarrow> int" where
  "ilog2 x =
     (let (n, d) = quotient_of x;
          a = int (floorlog 2 (nat n)) - int (floorlog 2 (nat d))
      in if 2 powi a \<le> x then a else a - 1)"

definition round_even :: "rat \<Rightarrow> int" where
  "round_even q =
     (let f = \<lfloor>q\<rfloor>; r = q - of_int f
      in if r < 1 / 2 then f else if r > 1 / 2 then f + 1 else if even f then f else f + 1)"

definition ulp_exp :: "rat \<Rightarrow> int" where
  "ulp_exp x = max (-1074) (ilog2 x - 52)"

definition rnd :: "rat \<Rightarrow> rat" where
  "rnd x = (if x \<le> 0 then 0 else of_int (round_even (x / 2 powi ulp_exp x)) * 2 powi ulp_exp x)"

lemma ilog2_bounds:
  assumes "0 < x"
  shows "2 powi ilog2 x \<le> x" "x < 2 powi (ilog2 x + 1)"
proof -
  obtain n d where q: "quotient_of x = (n, d)" by fastforce
  have x: "x = of_int n / of_int d" and d: "0 < d"
    using quotient_of_div [OF q] quotient_of_denom_pos [OF q] by auto
  have n: "0 < n" using assms x d by (simp add: zero_less_divide_iff)
  define k l where "k = floorlog 2 (nat n)" and "l = floorlog 2 (nat d)"
  have kl: "0 < k" "0 < l" using n d by (simp_all add: k_def l_def floorlog_def)
  have N: "(2 :: nat) ^ (k - 1) \<le> nat n" "nat n < (2 :: nat) ^ k" and D: "(2 :: nat) ^ (l - 1) \<le> nat d" "nat d < (2 :: nat) ^ l"
    using n d floorlog_bounds [of "nat n" 2] floorlog_bounds [of "nat d" 2] by (simp_all add: k_def l_def)
  have rn: "(2 :: rat) ^ (k - 1) \<le> of_int n" "of_int n < (2 :: rat) ^ k"
    using N n by (metis of_int_of_nat_eq of_nat_le_iff of_nat_numeral of_nat_power int_nat_eq less_le,
        metis of_int_of_nat_eq of_nat_less_iff of_nat_numeral of_nat_power int_nat_eq less_le)
  have rd: "(2 :: rat) ^ (l - 1) \<le> of_int d" "of_int d < (2 :: rat) ^ l"
    using D d by (metis of_int_of_nat_eq of_nat_le_iff of_nat_numeral of_nat_power int_nat_eq less_le,
        metis of_int_of_nat_eq of_nat_less_iff of_nat_numeral of_nat_power int_nat_eq less_le)
  have up: "x < 2 powi (int k - int l + 1)"
  proof -
    have "of_int n * 2 ^ (l - 1) < (2 :: rat) ^ k * of_int d"
      using rn(2) rd(1) n d by (meson less_le_trans mult_le_cancel_left_pos mult_strict_right_mono zero_less_numeral zero_less_power of_int_0_less_iff)
    then have "x < 2 ^ k / 2 ^ (l - 1)" using d by (simp add: x field_simps)
    also have "\<dots> = 2 powi (int k - int l + 1)" using kl by (simp add: power_int_diff power_int_add of_nat_diff flip: power_int_of_nat)
    finally show ?thesis .
  qed
  have low: "2 powi (int k - int l - 1) \<le> x"
  proof -
    have "(2 :: rat) ^ (k - 1) * of_int d \<le> of_int n * 2 ^ l"
      using rn(1) rd(2) n d by (intro mult_mono) auto
    then have "2 ^ (k - 1) / 2 ^ l \<le> x" using d by (simp add: x field_simps)
    moreover have "2 ^ (k - 1) / 2 ^ l = (2 :: rat) powi (int k - int l - 1)"
      using kl by (simp add: power_int_diff power_int_add of_nat_diff flip: power_int_of_nat)
    ultimately show ?thesis by simp
  qed
  have "ilog2 x = (if 2 powi (int k - int l) \<le> x then int k - int l else int k - int l - 1)"
    by (simp add: ilog2_def q k_def l_def)
  then show "2 powi ilog2 x \<le> x" "x < 2 powi (ilog2 x + 1)"
    using up low by (auto simp: not_le)
qed

lemma round_even_int [simp]: "round_even (of_int z) = z"
  by (simp add: round_even_def)

lemma round_even_error: "\<bar>of_int (round_even q) - q\<bar> \<le> 1 / 2"
proof -
  have "of_int \<lfloor>q\<rfloor> \<le> q" "q < of_int \<lfloor>q\<rfloor> + 1" by linarith+
  then show ?thesis by (auto simp: round_even_def Let_def abs_le_iff)
qed

lemma round_even_floor: "\<lfloor>q\<rfloor> \<le> round_even q" "round_even q \<le> \<lfloor>q\<rfloor> + 1"
  by (auto simp: round_even_def Let_def)

lemma round_even_mono:
  assumes "p \<le> q"
  shows "round_even p \<le> round_even q"
proof (cases "\<lfloor>p\<rfloor> = \<lfloor>q\<rfloor>")
  case True
  with assms show ?thesis by (auto simp: round_even_def Let_def)
next
  case False
  with assms have "\<lfloor>p\<rfloor> + 1 \<le> \<lfloor>q\<rfloor>" using floor_mono [OF assms] by linarith
  with round_even_floor [of p] round_even_floor [of q] show ?thesis by linarith
qed

lemma rnd_nonneg: "0 \<le> rnd x"
proof (cases "x \<le> 0")
  case False
  then have "0 \<le> x / 2 powi ulp_exp x" by simp
  then have "round_even 0 \<le> round_even (x / 2 powi ulp_exp x)" by (rule round_even_mono)
  then show ?thesis using round_even_int [of 0] False by (simp add: rnd_def)
qed (simp add: rnd_def)

lemma rnd_zero [simp]: "rnd 0 = 0"
  by (simp add: rnd_def)

text \<open>Numbers with a significand of at most 53 bits are exact.\<close>

lemma two_powi_split: "(2 :: rat) powi (a + b) = 2 powi a * 2 powi b"
  by (simp add: power_int_add)

lemma two_powi_shift: "u \<le> e \<Longrightarrow> (2 :: rat) powi e = 2 ^ nat (e - u) * 2 powi u"
  using two_powi_split [of "e - u" u] by (simp add: power_int_def)

lemma ilog2_less:
  assumes "0 < x" "x < 2 powi k"
  shows "ilog2 x < k"
proof (rule ccontr)
  assume "\<not> ilog2 x < k"
  then have "(2 :: rat) powi k \<le> 2 powi ilog2 x" by (intro power_int_increasing) auto
  with ilog2_bounds(1) [OF assms(1)] assms(2) show False by linarith
qed

lemma rnd_exact:
  assumes m: "0 \<le> m" "m < 2 ^ 53" and e: "-1074 \<le> e"
  shows "rnd (of_int m * 2 powi e) = of_int m * 2 powi e"
proof (cases "m = 0")
  case False
  define x :: rat where "x = of_int m * 2 powi e"
  have pos: "0 < x" using m False by (simp add: x_def)
  have "of_int m < (2 :: rat) powi 53" using m(2) by (metis of_int_less_iff of_int_numeral of_int_power power_int_numeral)
  then have "x < 2 powi 53 * 2 powi e" unfolding x_def by (rule mult_strict_right_mono) simp
  then have "x < 2 powi (53 + e)" by (simp only: power_int_add [symmetric] two_powi_split)
  then have "ilog2 x < 53 + e" by (rule ilog2_less [OF pos])
  then have u: "ulp_exp x \<le> e" using e by (simp add: ulp_exp_def)
  define j where "j = nat (e - ulp_exp x)"
  define u where "u = ulp_exp x"
  have sh: "(2 :: rat) powi e = 2 ^ j * 2 powi u"
    unfolding j_def u_def by (rule two_powi_shift [OF u])
  have x: "x = of_int (m * 2 ^ j) * 2 powi u" by (simp add: x_def sh)
  then have "x / 2 powi u = of_int (m * 2 ^ j)" by (simp only: nonzero_eq_divide_eq) simp
  then have "round_even (x / 2 powi u) = m * 2 ^ j" by (simp only: round_even_int)
  then have "rnd x = of_int (m * 2 ^ j) * 2 powi u" using pos by (simp add: rnd_def u_def)
  also have "\<dots> = x" by (simp add: x)
  finally show ?thesis by (simp add: x_def)
qed simp

lemma rnd_nat: "n \<le> 2 ^ 53 \<Longrightarrow> rnd (of_nat n) = of_nat n"
proof (cases "n = 2 ^ 53")
  case True
  then show ?thesis using rnd_exact [of 1 53] by simp
next
  case False
  assume "n \<le> 2 ^ 53"
  then have "n < 2 ^ 53" using False by (rule le_neq_implies_less)
  then have "int n < 2 ^ 53" by (simp only: of_nat_less_numeral_power_cancel_iff)
  then show ?thesis using rnd_exact [of "int n" 0] by simp
qed

lemma rnd_power: "-1074 \<le> e \<Longrightarrow> rnd (2 powi e) = 2 powi e"
  using rnd_exact [of 1 e] by simp

section \<open>Error and monotonicity\<close>

lemma rnd_error:
  assumes "0 \<le> x"
  shows "\<bar>rnd x - x\<bar> \<le> x / 2 ^ 53 + 1 / 2 ^ 1075"
proof (cases "x = 0")
  case False
  with assms have pos: "0 < x" by simp
  let ?u = "(2 :: rat) powi ulp_exp x"
  have "\<bar>of_int (round_even (x / ?u)) - x / ?u\<bar> * ?u \<le> 1 / 2 * ?u"
    by (intro mult_right_mono round_even_error) simp
  moreover have "\<bar>of_int (round_even (x / ?u)) - x / ?u\<bar> * ?u = \<bar>rnd x - x\<bar>"
    using pos by (simp add: rnd_def abs_mult_pos left_diff_distrib)
  ultimately have 1: "\<bar>rnd x - x\<bar> \<le> ?u / 2" by simp
  have "?u \<le> x / 2 ^ 52 + 1 / 2 ^ 1074"
  proof (cases "ilog2 x - 52 \<le> -1074")
    case True
    then have "?u = 2 powi - 1074" by (simp only: ulp_exp_def max_absorb1)
    also have "\<dots> = 1 / 2 ^ 1074" by (simp only: power_int_minus_divide power_int_numeral)
    finally show ?thesis using pos by (simp only: add_increasing zero_le_divide_iff) simp
  next
    case False
    then have "?u = 2 powi ilog2 x / 2 ^ 52" by (simp add: ulp_exp_def max_def power_int_diff)
    with ilog2_bounds(1) [OF pos] have "?u \<le> x / 2 ^ 52" by (simp add: divide_right_mono)
    then show ?thesis by (simp add: add_increasing2)
  qed
  with 1 show ?thesis by (simp add: field_simps)
qed simp

lemma rnd_near:
  assumes "0 \<le> x"
  shows "\<bar>rnd x - x\<bar> \<le> x / 2 ^ 53 + 1 / 2 ^ 60"
proof -
  have "(1 :: rat) / 2 ^ 1075 \<le> 1 / 2 ^ 60"
    by (intro divide_left_mono power_increasing) simp_all
  with rnd_error [OF assms] show ?thesis by linarith
qed

lemma rnd_le_power:
  assumes "x \<le> 2 powi k" "-1074 \<le> k"
  shows "rnd x \<le> 2 powi k"
proof (cases "0 < x")
  case pos: True
  show ?thesis
  proof (cases "x = 2 powi k")
    case True
    with rnd_power [OF assms(2)] show ?thesis by simp
  next
    case False
    with assms have "ilog2 x < k" by (intro ilog2_less pos) auto
    then have u: "ulp_exp x \<le> k" using assms(2) by (simp add: ulp_exp_def)
    let ?u = "(2 :: rat) powi ulp_exp x"
    have k: "(2 :: rat) powi k = 2 ^ nat (k - ulp_exp x) * ?u"
      by (rule two_powi_shift [OF u])
    have "x / ?u \<le> of_int (2 ^ nat (k - ulp_exp x))"
      using assms(1) by (simp add: k divide_le_eq)
    from round_even_mono [OF this] have "round_even (x / ?u) \<le> 2 ^ nat (k - ulp_exp x)"
      by (simp only: round_even_int)
    then have "(of_int (round_even (x / ?u)) :: rat) \<le> of_int (2 ^ nat (k - ulp_exp x))" by (simp only: of_int_le_iff)
    then have "of_int (round_even (x / ?u)) * ?u \<le> 2 ^ nat (k - ulp_exp x) * ?u" by (intro mult_right_mono) simp_all
    then show ?thesis using pos by (simp add: rnd_def k)
  qed
qed (simp add: rnd_def)

lemma rnd_ge_binade:
  assumes "0 < x" "-1022 \<le> ilog2 x"
  shows "2 powi ilog2 x \<le> rnd x"
proof -
  let ?u = "(2 :: rat) powi ulp_exp x"
  have u: "ulp_exp x = ilog2 x - 52" using assms(2) by (simp add: ulp_exp_def)
  have l: "(2 :: rat) powi ilog2 x = of_int (2 ^ 52) * ?u" by (simp add: u power_int_diff)
  have "of_int (2 ^ 52) \<le> x / ?u" using ilog2_bounds(1) [OF assms(1)] by (simp add: l pos_le_divide_eq)
  from round_even_mono [OF this] have "2 ^ 52 \<le> round_even (x / ?u)" by (simp only: round_even_int)
  then have "(of_int (2 ^ 52) :: rat) \<le> of_int (round_even (x / ?u))" by (simp only: of_int_le_iff)
  then have "of_int (2 ^ 52) * ?u \<le> of_int (round_even (x / ?u)) * ?u" by (rule mult_right_mono) simp
  then show ?thesis using assms(1) by (simp add: rnd_def l)
qed

lemma rnd_mono:
  assumes "x \<le> y"
  shows "rnd x \<le> rnd y"
proof (cases "0 < x")
  case pos: True
  then have y: "0 < y" using assms by simp
  have "ilog2 x \<le> ilog2 y"
    using ilog2_less [OF pos, of "ilog2 y + 1"] ilog2_bounds(2) [OF y] assms by auto
  show ?thesis
  proof (cases "ulp_exp x = ulp_exp y")
    case True
    have "x / 2 powi ulp_exp y \<le> y / 2 powi ulp_exp y" using assms by (intro divide_right_mono) simp_all
    from round_even_mono [OF this] have "(of_int (round_even (x / 2 powi ulp_exp y)) :: rat) \<le> of_int (round_even (y / 2 powi ulp_exp y))"
      by (simp only: of_int_le_iff)
    then show ?thesis using pos y True by (simp add: rnd_def mult_right_mono)
  next
    case False
    with \<open>ilog2 x \<le> ilog2 y\<close> have l: "ilog2 x < ilog2 y" "-1022 \<le> ilog2 y" by (auto simp: ulp_exp_def)
    have "x \<le> 2 powi ilog2 y"
      using ilog2_bounds(2) [OF pos] power_int_increasing [of "ilog2 x + 1" "ilog2 y" "2 :: rat"] l by simp
    then have "rnd x \<le> 2 powi ilog2 y" using l by (intro rnd_le_power) auto
    also have "\<dots> \<le> rnd y" by (rule rnd_ge_binade [OF y l(2)])
    finally show ?thesis .
  qed
next
  case False
  then have "rnd x = 0" by (simp add: rnd_def)
  with rnd_nonneg show ?thesis by simp
qed

section \<open>Computing\<close>

lemma ilog2_eq:
  assumes "2 powi k \<le> x" "x < 2 powi (k + 1)"
  shows "ilog2 x = k"
proof -
  have pos: "0 < x" using assms(1) by (rule less_le_trans [rotated]) simp
  have "ilog2 x < k + 1" by (rule ilog2_less [OF pos assms(2)])
  moreover have "\<not> ilog2 x < k"
  proof
    assume "ilog2 x < k"
    then have "(2 :: rat) powi (ilog2 x + 1) \<le> 2 powi k" by (intro power_int_increasing) auto
    with ilog2_bounds(2) [OF pos] assms(1) show False by linarith
  qed
  ultimately show ?thesis by simp
qed

lemma round_even_eq:
  assumes "\<bar>of_int z - q\<bar> < 1 / 2"
  shows "round_even q = z"
proof -
  have "\<bar>of_int (round_even q) - (of_int z :: rat)\<bar> < 1" using assms round_even_error [of q] by linarith
  then have "of_int \<bar>round_even q - z\<bar> < (of_int 1 :: rat)" by simp
  then show ?thesis by simp
qed

lemma rnd_eq:
  assumes "2 powi (e + 52) \<le> x" "x < 2 powi (e + 53)" "-1074 \<le> e" "\<bar>of_int z - x / 2 powi e\<bar> < 1 / 2"
  shows "rnd x = of_int z * 2 powi e"
proof -
  have "ilog2 x = e + 52" using assms(1,2) by (intro ilog2_eq) (simp_all add: add.assoc)
  then have "ulp_exp x = e" using assms(3) by (simp add: ulp_exp_def)
  moreover have "0 < x" using assms(1) by (rule less_le_trans [rotated]) simp
  ultimately show ?thesis using round_even_eq [OF assms(4)] by (simp add: rnd_def)
qed

end
