(* ===== verification/Go_Fmt.thy ===== *)
theory Go_Fmt
  imports Prelude
begin

text \<open>
  How Go prints integers and durations: \<^verbatim>\<open>%d\<close>, \<^verbatim>\<open>%v\<close> of a \<^verbatim>\<open>time.Duration\<close>, and
  \<^verbatim>\<open>Duration.Round\<close>. A duration is an \<^verbatim>\<open>int64\<close> number of nanoseconds.
\<close>

definition fmt_int :: "int \<Rightarrow> string" where
  "fmt_int z = (if z < 0 then CHR ''-'' # itoa (nat (- z)) else itoa (nat z))"

text \<open>The fraction of \<open>v\<close> in units of \<open>10 ^ - prec\<close>, without trailing zeros.\<close>

definition fmt_frac :: "nat \<Rightarrow> nat \<Rightarrow> string" where
  "fmt_frac prec v =
     (let ds = dropWhile (\<lambda>d. d = 0) (map (\<lambda>i. v div 10 ^ i mod 10) [0..<prec])
      in if ds = [] then '''' else CHR ''.'' # map (\<lambda>d. char_of (48 + d)) (rev ds))"

definition Duration_String :: "int \<Rightarrow> string" where
  "Duration_String d =
     (let u = nat \<bar>d\<bar>; s = u div 1000000000; m = s div 60; h = m div 60;
          core =
            (if u = 0 then ''0s''
             else if u < 1000 then itoa u @ ''ns''
             else if u < 1000000 then itoa (u div 1000) @ fmt_frac 3 u @ [CHR 0xC2, CHR 0xB5] @ ''s''
             else if u < 1000000000 then itoa (u div 1000000) @ fmt_frac 6 u @ ''ms''
             else (if m > 0 then (if h > 0 then itoa h @ ''h'' else '''') @ itoa (m mod 60) @ ''m'' else '''') @
                  itoa (s mod 60) @ fmt_frac 9 u @ ''s'')
      in if d < 0 then CHR ''-'' # core else core)"

text \<open>Times are nanoseconds; differences and rounding saturate at the limits of \<^verbatim>\<open>int64\<close>.\<close>

definition clamp64 :: "int \<Rightarrow> int" where
  "clamp64 d = max (- (2 ^ 63)) (min (2 ^ 63 - 1) d)"

definition Time_Sub :: "int \<Rightarrow> int \<Rightarrow> int" where
  "Time_Sub t u = clamp64 (t - u)"

definition Duration_Round :: "int \<Rightarrow> int \<Rightarrow> int" where
  "Duration_Round d m =
     (if m \<le> 0 then d
      else if d < 0 then
        (let r = (- d) mod m in if r + r < m then d + r else clamp64 (d - m + r))
      else
        (let r = d mod m in if r + r < m then d - r else clamp64 (d + m - r)))"

text \<open>\<^verbatim>\<open>int64\<close> arithmetic wraps around.\<close>

definition wrap64 :: "int \<Rightarrow> int" where
  "wrap64 z = (z + 2 ^ 63) mod 2 ^ 64 - 2 ^ 63"

text \<open>Digits are read back as the number they print.\<close>

lemma itoa_value: "foldl (\<lambda>v c. 10 * v + (of_char c - 48)) 0 (itoa n) = n"
proof (induction n rule: itoa.induct)
  case (1 n)
  then show ?case
    by (cases "n < 10") (simp_all add: itoa.simps [of n])
qed

lemma itoa_inj: "itoa m = itoa n \<longleftrightarrow> m = n"
  by (metis itoa_value)

end
