(* ===== verification/Monitor_Evaluate.thy ===== *)
theory Monitor_Evaluate
  imports Monitor_Status Os_Laws Float64 Go_Fmt
begin

text \<open>
  The evaluation of a node's health, the rest of \<^verbatim>\<open>internal/monitor/status.go\<close>: disk statistics,
  the check for old staging files and \<^verbatim>\<open>Evaluate\<close> with its thresholds. The result of
  \<^verbatim>\<open>syscall.Statfs\<close> and the readings of the clock are arguments; \<open>wide\<close> is the conversion to
  \<^verbatim>\<open>int\<close> of a \<^verbatim>\<open>float64\<close> that does not fit, which Go leaves to the implementation.
\<close>

section \<open>Disk statistics\<close>

record statfs =
  Bavail :: u64
  Blocks :: u64
  Bsize :: int

record DiskStats =
  TotalBytes :: u64
  FreeBytes :: u64
  FreePercent :: int

definition u64_to_float :: "u64 \<Rightarrow> rat" where
  "u64_to_float v = rnd (of_nat (unat v))"

definition float_to_int :: "(rat \<Rightarrow> int) \<Rightarrow> rat \<Rightarrow> int" where
  "float_to_int wide x = (if x < 2 ^ 63 then \<lfloor>x\<rfloor> else wide x)"

definition GetDiskStats :: "(rat \<Rightarrow> int) \<Rightarrow> path \<Rightarrow> error + statfs \<Rightarrow> error option \<times> DiskStats" where
  "GetDiskStats wide p st =
     (case st of
        Inl err \<Rightarrow> (Some (Wrap (''statfs '' @ path_string p @ '': '') err ''''),
                    \<lparr>TotalBytes = 0, FreeBytes = 0, FreePercent = 0\<rparr>)
      | Inr stat \<Rightarrow>
          (let freeBytes = Bavail stat * of_int (Bsize stat);
               totalBytes = Blocks stat * of_int (Bsize stat);
               freePct =
                 (if totalBytes > 0
                  then float_to_int wide (rnd (rnd (u64_to_float freeBytes / u64_to_float totalBytes) * 100))
                  else 0)
           in (None, \<lparr>TotalBytes = totalBytes, FreeBytes = freeBytes, FreePercent = freePct\<rparr>)))"

section \<open>The status of a node\<close>

record NodeStatus =
  NodeID :: string
  Role :: role
  State :: health_state
  ActiveIssues :: "string list"
  UptimeSeconds :: int
  FilesTotal :: u64
  BytesTotal :: u64
  ErrorsTotal :: u64
  WaitingFiles :: int
  FailedFiles :: int
  LastOkSeconds :: int
  Disk :: DiskStats

definition minute :: int where "minute = 60 * second"

text \<open>\<^verbatim>\<open>int64(d.Seconds())\<close>: whole seconds and the rest are added as \<^verbatim>\<open>float64\<close>s.\<close>

definition whole_seconds :: "int \<Rightarrow> int" where
  "whole_seconds d =
     (let u = nat \<bar>d\<bar>;
          secs = \<lfloor>rnd (rnd (of_nat (u div 1000000000)) + rnd (rnd (of_nat (u mod 1000000000)) / 1000000000))\<rfloor>
      in if d < 0 then - secs else secs)"

fun old_staging :: "int \<Rightarrow> os \<Rightarrow> path \<Rightarrow> (string \<times> entry) list \<Rightarrow> bool \<times> os" where
  "old_staging cutoff s d [] = (False, s)"
| "old_staging cutoff s d ((n, e) # entries) =
     (if e \<noteq> Dir \<and> HasSuffix n ''.tmp'' then
        (case Lstat s (d @ [n]) of
           (Inl err, s1) \<Rightarrow> old_staging cutoff s1 d entries
         | (Inr (sz, modTime), s1) \<Rightarrow>
             if modTime < cutoff then (True, s1) else old_staging cutoff s1 d entries)
      else old_staging cutoff s d entries)"

definition checkOldStagingFiles :: "int \<Rightarrow> os \<Rightarrow> tracker \<Rightarrow> bool \<times> os" where
  "checkOldStagingFiles now s t =
     (let stagingDir = t_watchDir t @ [''.staging''] in
      case ReadDir s stagingDir of
        (Inl err, s1) \<Rightarrow> (False, s1)
      | (Inr entries, s1) \<Rightarrow> old_staging (now - 10 * minute) s1 stagingDir entries)"

section \<open>Evaluation\<close>

text \<open>The verdict so far: a state and the list of issues. A warning does not lower a failure.\<close>

type_synonym verdict = "health_state \<times> string list"

definition warn :: "string \<Rightarrow> verdict \<Rightarrow> verdict" where
  "warn msg v = (if fst v \<noteq> StateFail then StateWarn else fst v, snd v @ [msg])"

definition fail :: "string \<Rightarrow> verdict \<Rightarrow> verdict" where
  "fail msg v = (StateFail, snd v @ [msg])"

definition check_disk :: "tracker \<Rightarrow> DiskStats \<Rightarrow> verdict \<Rightarrow> verdict" where
  "check_disk t disk v =
     (if TotalBytes disk > 0 then
        (if FreePercent disk < t_diskFailPct t then
           fail (''disk free ('' @ fmt_int (FreePercent disk) @ ''%) below critical failure threshold ('' @
                 fmt_int (t_diskFailPct t) @ ''%)'') v
         else if FreePercent disk < t_diskWarnPct t then
           warn (''disk free ('' @ fmt_int (FreePercent disk) @ ''%) below warning threshold ('' @
                 fmt_int (t_diskWarnPct t) @ ''%)'') v
         else v)
      else v)"

definition check_sender :: "int \<Rightarrow> tracker \<Rightarrow> nat \<Rightarrow> verdict \<Rightarrow> verdict" where
  "check_sender now t recentErrCount v =
     (let timeSinceOk = Time_Sub now (t_lastOkTime t);
          v1 = (if t_waitingFiles t > 0 \<and> t_stallAfter t > 0 \<and> timeSinceOk > t_stallAfter t then
                  fail (''stalled: '' @ fmt_int (t_waitingFiles t) @ '' files waiting and no success for '' @
                        Duration_String (Duration_Round timeSinceOk second) @ '' (limit: '' @
                        Duration_String (t_stallAfter t) @ '')'') v
                else v);
          v2 = (if t_failedFiles t > 0
                then warn (fmt_int (t_failedFiles t) @ '' file(s) parked in .failed'') v1 else v1)
      in if recentErrCount > 0
         then warn (itoa recentErrCount @ '' error(s) occurred in the last 5 minutes'') v2 else v2)"

definition check_receiver :: "int \<Rightarrow> int \<Rightarrow> os \<Rightarrow> tracker \<Rightarrow> nat \<Rightarrow> verdict \<Rightarrow> verdict \<times> os" where
  "check_receiver now now1 s t recentErrCount v =
     (let v1 = (if recentErrCount > 0
                then warn (itoa recentErrCount @ '' handshake refusal(s) or rejected file(s) in the last 5 minutes'') v
                else v);
          (old, s1) = (if t_activeConnections t = 0 then checkOldStagingFiles now1 s t else (False, s));
          v2 = (if old then warn ''staging file untouched for 10+ minutes with no active connection'' v1 else v1);
          timeSinceOk = Time_Sub now (t_lastOkTime t);
          v3 = (if t_staleAfter t > 0 \<and> timeSinceOk > t_staleAfter t then
                  warn (''no commits for '' @ Duration_String (Duration_Round timeSinceOk second) @
                        '' (stale-after: '' @ Duration_String (t_staleAfter t) @ '')'') v2
                else v2)
      in (v3, s1))"

text \<open>\<open>now1\<close> is the second reading of the clock, in \<^verbatim>\<open>checkOldStagingFiles\<close>.\<close>

definition check_role :: "int \<Rightarrow> int \<Rightarrow> os \<Rightarrow> tracker \<Rightarrow> nat \<Rightarrow> verdict \<Rightarrow> verdict \<times> os" where
  "check_role now now1 s t recentErrCount v =
     (case t_role t of
        RoleSender \<Rightarrow> (check_sender now t recentErrCount v, s)
      | RoleReceiver \<Rightarrow> check_receiver now now1 s t recentErrCount v)"

definition Evaluate ::
  "(rat \<Rightarrow> int) \<Rightarrow> error + statfs \<Rightarrow> int \<Rightarrow> int \<Rightarrow> os \<Rightarrow> tracker \<Rightarrow> NodeStatus \<times> os \<times> tracker"
where
  "Evaluate wide st now now1 s t =
     (let (recentErrCount, t1) = pruneErrors (now - 5 * minute) t;
          disk = snd (GetDiskStats wide (t_watchDir t) st);
          v = check_disk t1 disk (StateOK, []);
          (v1, s1) = check_role now now1 s t1 recentErrCount v;
          lastOkSec = whole_seconds (Time_Sub now (t_lastOkTime t1))
      in (\<lparr>NodeID = t_nodeID t1, Role = t_role t1, State = fst v1, ActiveIssues = snd v1,
           UptimeSeconds = whole_seconds (Time_Sub now (t_startTime t1)),
           FilesTotal = t_filesTotal t1, BytesTotal = t_bytesTotal t1, ErrorsTotal = t_errorsTotal t1,
           WaitingFiles = t_waitingFiles t1, FailedFiles = t_failedFiles t1,
           LastOkSeconds = (if lastOkSec < 0 then 0 else lastOkSec), Disk = disk\<rparr>, s1, t1))"

section \<open>Specification of the verdict\<close>

definition disk_below :: "DiskStats \<Rightarrow> int \<Rightarrow> bool" where
  "disk_below disk k \<longleftrightarrow> TotalBytes disk > 0 \<and> FreePercent disk < k"

definition recent_error :: "int \<Rightarrow> tracker \<Rightarrow> bool" where
  "recent_error now t \<longleftrightarrow> (\<exists>ts \<in> set (t_recentErrors t). now - 5 * minute < ts)"

definition quiet_for :: "int \<Rightarrow> tracker \<Rightarrow> int \<Rightarrow> bool" where
  "quiet_for now t limit \<longleftrightarrow> 0 < limit \<and> limit < Time_Sub now (t_lastOkTime t)"

definition abandoned_staging :: "int \<Rightarrow> os \<Rightarrow> tracker \<Rightarrow> bool" where
  "abandoned_staging now s t \<longleftrightarrow>
     is_dir s (t_watchDir t @ [''.staging'']) \<and>
     (\<exists>n i. ent s (t_watchDir t @ [''.staging'', n]) = Some (Ino i) \<and> HasSuffix n ''.tmp'' \<and>
        i_mtime (inode_of s i) < now - 10 * minute)"

definition failing :: "int \<Rightarrow> tracker \<Rightarrow> DiskStats \<Rightarrow> bool" where
  "failing now t disk \<longleftrightarrow>
     disk_below disk (t_diskFailPct t) \<or>
     t_role t = RoleSender \<and> t_waitingFiles t > 0 \<and> quiet_for now t (t_stallAfter t)"

definition warning :: "int \<Rightarrow> int \<Rightarrow> os \<Rightarrow> tracker \<Rightarrow> DiskStats \<Rightarrow> bool" where
  "warning now now1 s t disk \<longleftrightarrow>
     disk_below disk (t_diskWarnPct t) \<or> recent_error now t \<or>
     (case t_role t of
        RoleSender \<Rightarrow> t_failedFiles t > 0
      | RoleReceiver \<Rightarrow>
          t_activeConnections t = 0 \<and> abandoned_staging now1 s t \<or> quiet_for now t (t_staleAfter t))"

lemma old_staging_quiet:
  assumes "o_faults s = []" "\<forall>(n, e) \<in> set es. ent s (d @ [n]) = Some e"
  shows "old_staging deadline s d es =
    (\<exists>(n, e) \<in> set es. HasSuffix n ''.tmp'' \<and> (\<exists>i. e = Ino i \<and> i_mtime (inode_of s i) < deadline), s)"
  using assms(2)
proof (induction es)
  case (Cons x es)
  obtain n e where x: "x = (n, e)" by fastforce
  have e: "ent s (d @ [n]) = Some e" using Cons.prems x by simp
  have "Lstat s (d @ [n]) = (Inr (int (length (i_data (inode_of s i))), i_mtime (inode_of s i)), s)" if "e = Ino i" for i
    using that e assms(1) by (simp add: Lstat_def fault_quiet)
  with Cons x show ?case by (cases e) auto
qed simp

lemma checkOldStagingFiles_quiet:
  assumes "fs_wf s" "o_faults s = []"
  shows "checkOldStagingFiles now s t = (abandoned_staging now s t, s)"
proof -
  let ?d = "t_watchDir t @ [''.staging'']" and ?es = "map (\<lambda>n. (n, the (ent s (t_watchDir t @ [''.staging'', n])))) (names_in s (t_watchDir t @ [''.staging'']))"
  have es: "\<forall>(n, e) \<in> set ?es. ent s (?d @ [n]) = Some e"
    using names_in_ent [OF assms(1), of _ ?d] by auto
  have "(\<exists>(n, e) \<in> set ?es. HasSuffix n ''.tmp'' \<and> (\<exists>i. e = Ino i \<and> i_mtime (inode_of s i) < deadline)) \<longleftrightarrow>
      (\<exists>n i. ent s (t_watchDir t @ [''.staging'', n]) = Some (Ino i) \<and> HasSuffix n ''.tmp'' \<and> i_mtime (inode_of s i) < deadline)" for deadline
    using names_in_ent [OF assms(1), of _ ?d] by force
  with old_staging_quiet [OF assms(2) es] assms(2) show ?thesis
    by (auto simp: checkOldStagingFiles_def ReadDir_def fault_quiet abandoned_staging_def Let_def)
qed

text \<open>The states are ordered; a verdict lists issues exactly when it is not OK.\<close>

definition sound :: "verdict \<Rightarrow> bool" where
  "sound v \<longleftrightarrow> (snd v = [] \<longleftrightarrow> fst v = StateOK)"

definition verdict_of :: "bool \<Rightarrow> bool \<Rightarrow> health_state" where
  "verdict_of f w = max (if f then StateFail else StateOK) (if w then StateWarn else StateOK)"

lemma verdict_step [simp]:
  "fst (warn m v) = max StateWarn (fst v)" "sound (warn m v)"
  "fst (fail m v) = StateFail" "sound (fail m v)"
  by (cases "fst v"; simp add: warn_def fail_def sound_def)+

text \<open>No check makes a verdict better.\<close>

lemma checks_only_worsen:
  "fst v \<le> fst (check_disk t disk v)" "fst v \<le> fst (check_sender now t n v)"
  "fst v \<le> fst (fst (check_receiver now now1 s t n v))"
  by (auto simp: check_disk_def check_sender_def check_receiver_def Let_def le_max_iff_disj split: prod.splits)

lemma verdict_of_cases [simp]:
  "verdict_of f w = StateFail \<longleftrightarrow> f" "verdict_of True w = StateFail" "verdict_of False True = StateWarn"
  "verdict_of False False = StateOK"
  by (auto simp: verdict_of_def)

lemma check_disk_verdict:
  "sound (check_disk t disk (StateOK, [])) \<and>
   fst (check_disk t disk (StateOK, [])) = verdict_of (disk_below disk (t_diskFailPct t)) (disk_below disk (t_diskWarnPct t))"
  by (simp add: check_disk_def disk_below_def verdict_of_def) (simp add: sound_def)

lemma check_sender_verdict:
  assumes "sound v" "fst v = verdict_of f w"
  shows "sound (check_sender now t n v) \<and> fst (check_sender now t n v) =
    verdict_of (f \<or> t_waitingFiles t > 0 \<and> quiet_for now t (t_stallAfter t)) (w \<or> t_failedFiles t > 0 \<or> 0 < n)"
proof -
  define stalled where "stalled \<longleftrightarrow> t_waitingFiles t > 0 \<and> t_stallAfter t > 0 \<and> Time_Sub now (t_lastOkTime t) > t_stallAfter t"
  define fl where "fl \<longleftrightarrow> t_failedFiles t > 0"
  have q: "(t_waitingFiles t > 0 \<and> quiet_for now t (t_stallAfter t)) = stalled"
    by (auto simp: stalled_def quiet_for_def)
  show ?thesis
    unfolding q check_sender_def Let_def stalled_def [symmetric] fl_def [symmetric]
    using assms by (cases stalled; cases fl; cases "0 < n"; cases f; cases w) simp_all
qed

lemma check_receiver_verdict:
  assumes "sound v" "fst v = verdict_of f w" "checkOldStagingFiles now1 s t = (old, s)"
  shows "sound (fst (check_receiver now now1 s t n v)) \<and> snd (check_receiver now now1 s t n v) = s \<and>
    fst (fst (check_receiver now now1 s t n v)) =
    verdict_of f (w \<or> 0 < n \<or> t_activeConnections t = 0 \<and> old \<or> quiet_for now t (t_staleAfter t))"
proof -
  define stale where "stale \<longleftrightarrow> t_staleAfter t > 0 \<and> Time_Sub now (t_lastOkTime t) > t_staleAfter t"
  have q: "quiet_for now t (t_staleAfter t) = stale" by (auto simp: stale_def quiet_for_def)
  show ?thesis
    unfolding q check_receiver_def Let_def stale_def [symmetric] assms(3)
    using assms(1,2) by (cases stale; cases "t_activeConnections t = 0"; cases old; cases "0 < n"; cases f; cases w) simp_all
qed

lemma prune_count: "0 < fst (pruneErrors (now - 5 * minute) t) \<longleftrightarrow> recent_error now t"
  by (auto simp: pruneErrors_def recent_error_def Let_def filter_empty_conv)

lemma Evaluate_result:
  assumes "Evaluate wide st now now1 s t = (ns, s', t')"
  obtains n errs r where "t' = t\<lparr>t_recentErrors := errs\<rparr>" "0 < n \<longleftrightarrow> recent_error now t"
    "r = check_role now now1 s t' n (check_disk t' (Disk ns) (StateOK, []))"
    "State ns = fst (fst r)" "ActiveIssues ns = snd (fst r)" "s' = snd r"
proof -
  define errs where "errs = filter (\<lambda>ts. now - 5 * minute < ts) (t_recentErrors t)"
  have p: "pruneErrors (now - 5 * minute) t = (length errs, t\<lparr>t_recentErrors := errs\<rparr>)"
    by (simp add: pruneErrors_def errs_def Let_def)
  have "0 < length errs \<longleftrightarrow> recent_error now t" using prune_count [of now t] p by simp
  moreover define r where "r = check_role now now1 s (t\<lparr>t_recentErrors := errs\<rparr>) (length errs)
    (check_disk (t\<lparr>t_recentErrors := errs\<rparr>) (snd (GetDiskStats wide (t_watchDir t) st)) (StateOK, []))"
  have "State ns = fst (fst r) \<and> ActiveIssues ns = snd (fst r) \<and> s' = snd r \<and> t' = t\<lparr>t_recentErrors := errs\<rparr> \<and>
      Disk ns = snd (GetDiskStats wide (t_watchDir t) st)"
    using assms unfolding Evaluate_def p Let_def split_beta fst_conv snd_conv r_def [symmetric] by auto
  ultimately show thesis by (intro that [of errs "length errs" r]) (simp_all add: r_def)
qed

text \<open>
  C18: the health verdict of a node is exactly what the documented conditions say: FAIL when disk
  space is below the critical threshold or a sender with waiting files has had no success for
  longer than the stall limit; otherwise WARN when disk space is below the warning threshold, an
  error happened in the last five minutes, a sender has quarantined files, or a receiver has an
  abandoned staging file without a connection or no commit within its limit; otherwise OK.
  Issues are listed exactly when the state is not OK.
\<close>

theorem Evaluate_verdict:
  assumes "fs_wf s" "o_faults s = []" "Evaluate wide st now now1 s t = (ns, s', t')"
  shows "State ns = (if failing now t (Disk ns) then StateFail
                     else if warning now now1 s t (Disk ns) then StateWarn else StateOK) \<and>
    (ActiveIssues ns = [] \<longleftrightarrow> State ns = StateOK) \<and> s' = s"
proof -
  obtain n errs r where e: "t' = t\<lparr>t_recentErrors := errs\<rparr>" "0 < n \<longleftrightarrow> recent_error now t"
    "r = check_role now now1 s t' n (check_disk t' (Disk ns) (StateOK, []))"
    "State ns = fst (fst r)" "ActiveIssues ns = snd (fst r)" "s' = snd r"
    using assms(3) by (rule Evaluate_result)
  have old: "checkOldStagingFiles now1 s t' = (abandoned_staging now1 s t, s)"
    using checkOldStagingFiles_quiet [OF assms(1,2), of now1 t'] e(1) by (simp add: abandoned_staging_def)
  define v where "v = check_disk t' (Disk ns) (StateOK, [])"
  note v = check_disk_verdict [of t' "Disk ns", folded v_def]
  have same: "t_role t' = t_role t" "t_diskFailPct t' = t_diskFailPct t" "t_diskWarnPct t' = t_diskWarnPct t"
    "t_waitingFiles t' = t_waitingFiles t" "t_failedFiles t' = t_failedFiles t" "t_stallAfter t' = t_stallAfter t"
    "t_staleAfter t' = t_staleAfter t" "t_activeConnections t' = t_activeConnections t" "quiet_for now t' = quiet_for now t"
    by (simp_all add: e(1) quiet_for_def fun_eq_iff)
  show ?thesis
  proof (cases "t_role t")
    case RoleSender
    then have "fst r = check_sender now t' n v" "snd r = s" using e(3) same(1) by (simp_all add: check_role_def v_def)
    with check_sender_verdict [of v _ _ now t' n] v RoleSender e(2,4-6) show ?thesis
      by (auto simp: failing_def warning_def same sound_def verdict_of_def)
  next
    case RoleReceiver
    then have "r = check_receiver now now1 s t' n v" using e(3) same(1) by (simp add: check_role_def v_def)
    with check_receiver_verdict [OF _ _ old, of v _ _ now n] v RoleReceiver e(2,4-6) show ?thesis
      by (auto simp: failing_def warning_def same sound_def verdict_of_def)
  qed
qed

section \<open>The free space in percent\<close>

lemma quotient_near:
  assumes f: "0 \<le> f" "f \<le> t" and t: "1 \<le> t"
  shows "rnd f / rnd t \<le> 1" "\<bar>rnd f / rnd t - f / t\<bar> \<le> 1 / 2 ^ 50" "0 < rnd t"
proof -
  have t1: "1 \<le> rnd t" using rnd_mono [OF t] rnd_nat [of 1] by simp
  then show pos: "0 < rnd t" by simp
  have mono: "rnd f \<le> rnd t" by (rule rnd_mono [OF f(2)])
  then show "rnd f / rnd t \<le> 1" using pos by simp
  have e: "\<bar>rnd x - x\<bar> \<le> x / 2 ^ 53 + 1 / 2 ^ 60" if "0 \<le> x" for x by (rule rnd_near [OF that])
  have et: "\<bar>rnd t - t\<bar> \<le> t / 2 ^ 52" using e [of t] t by simp
  have ef: "\<bar>rnd f - f\<bar> \<le> t / 2 ^ 52" using e [of f] f t by simp
  have "rnd t \<ge> t / 2" 
  proof -
    have "t / 2 ^ 52 \<le> t / 4" using t by simp
    with et show ?thesis by linarith
  qed
  have eq: "rnd f / rnd t - f / t = ((rnd f - f) - (rnd t - t) * (f / t)) / rnd t"
    using pos t by (simp add: field_simps)
  have bnd: "\<bar>(rnd f - f) - (rnd t - t) * (f / t)\<bar> \<le> t / 2 ^ 51"
  proof -
    define A B where "A = (rnd t - t) * (f / t)" and "B = rnd f - f"
    have "\<bar>A\<bar> \<le> \<bar>rnd t - t\<bar> * 1"
      unfolding A_def abs_mult using f t by (intro mult_left_mono) simp_all
    moreover define c where "c = t / 2 ^ 52"
    ultimately have "\<bar>A\<bar> \<le> c" "\<bar>B\<bar> \<le> c" using et ef by (simp_all only: B_def c_def mult_1_right)
    moreover have "t / 2 ^ 51 = c + c" by (simp add: c_def)
    ultimately have "\<bar>B - A\<bar> \<le> t / 2 ^ 51" by linarith
    then show ?thesis by (simp only: A_def B_def)
  qed
  have "\<bar>rnd f / rnd t - f / t\<bar> \<le> t / 2 ^ 51 / rnd t"
    unfolding eq abs_divide abs_of_pos [OF pos] by (rule divide_right_mono [OF bnd less_imp_le [OF pos]])
  also have "\<dots> \<le> t / 2 ^ 51 / (t / 2)"
    using \<open>rnd t \<ge> t / 2\<close> t by (intro divide_left_mono) simp_all
  finally show "\<bar>rnd f / rnd t - f / t\<bar> \<le> 1 / 2 ^ 50" using t by simp
qed

lemma percent_near:
  assumes f: "0 \<le> f" "f \<le> t" and t: "1 \<le> t"
  defines "p \<equiv> rnd (rnd (rnd f / rnd t) * 100)"
  shows "0 \<le> p" "p \<le> 100" "\<bar>p - 100 * f / t\<bar> < 1 / 2 ^ 40"
proof -
  define q r where "q = rnd f / rnd t" and "r = rnd q"
  note q = quotient_near [OF f t, folded q_def]
  have q0: "0 \<le> q" using q(3) rnd_nonneg by (simp add: q_def)
  have r: "0 \<le> r" "r \<le> 1" using rnd_nonneg rnd_mono [OF q(1)] rnd_nat [of 1] by (simp_all add: r_def)
  have "p \<le> rnd 100" unfolding p_def r_def [symmetric, unfolded q_def] by (rule rnd_mono) (use r in simp)
  then show "p \<le> 100" using rnd_nat [of 100] by simp
  show "0 \<le> p" by (simp add: p_def rnd_nonneg)
  have p: "p = rnd (r * 100)" by (simp add: p_def r_def q_def)
  have "\<bar>r - q\<bar> \<le> 1 / 1125899906842624" using rnd_near [OF q0] q(1) q0 by (simp add: r_def)
  moreover have "\<bar>p - r * 100\<bar> \<le> 1 / 70368744177664" using rnd_near [of "r * 100"] r by (simp add: p)
  moreover have "\<bar>q - f / t\<bar> \<le> 1 / 1125899906842624" using q(2) by simp
  ultimately have "\<bar>p - 100 * (f / t)\<bar> < 1 / 1099511627776" by linarith
  then show "\<bar>p - 100 * f / t\<bar> < 1 / 2 ^ 40" by simp
qed


text \<open>
  The percentage is not always the exact one rounded down: with 29 of 100 blocks free it is 28,
  so a node configured to warn below 29 percent warns already at 29 percent.
\<close>

theorem FreePercent_can_be_low:
  "GetDiskStats wide p (Inr \<lparr>Bavail = 29, Blocks = 100, Bsize = 4096\<rparr>) =
     (None, \<lparr>TotalBytes = 409600, FreeBytes = 118784, FreePercent = 28\<rparr>)"
proof -
  have c: "rnd 118784 = 118784" "rnd 409600 = 409600" using rnd_nat [of 118784] rnd_nat [of 409600] by simp_all
  have q: "rnd (29 / 100) = 5224175567749775 / 18014398509481984"
    using rnd_eq [of "-54" "29 / 100" 5224175567749775] by (simp add: power_int_minus)
  have r: "rnd (522417556774977500 / 18014398509481984) = 8162774324609023 / 281474976710656"
    using rnd_eq [of "-48" "522417556774977500 / 18014398509481984" 8162774324609023] by (simp add: power_int_minus)
  have "5224175567749775 / 18014398509481984 * 100 = (522417556774977500 / 18014398509481984 :: rat)" by simp
  then have p: "rnd (rnd (29 / 100) * 100) = 8162774324609023 / 281474976710656" by (simp only: q r)
  have "\<lfloor>8162774324609023 / 281474976710656 :: rat\<rfloor> = 28" by (rule floor_unique) simp_all
  then have "float_to_int wide (rnd (rnd (29 / 100) * 100)) = 28" unfolding p float_to_int_def by simp
  then show ?thesis using c by (simp add: GetDiskStats_def u64_to_float_def)
qed

section \<open>Witnesses\<close>

definition bare_os :: os where
  "bare_os = \<lparr>o_fs = \<lparr>v_ents = [([''out''], Dir)], v_disk = [], v_inodes = (\<lambda>_. \<lparr>i_data = [], i_synced = [], i_mtime = 0\<rparr>)\<rparr>,
     o_hist = [], o_next = 0, o_faults = [], o_space = None, o_clock = 0, o_entropy = (\<lambda>_. []), o_draws = 0\<rparr>"

lemma bare_os_wf: "fs_wf bare_os" "o_faults bare_os = []"
  by code_simp+

definition warned :: tracker where
  "warned = SetQueueCounts 0 1 (NewTracker 0 ''n1'' RoleSender [''out''] 0 0 0 0)"

lemma warned_verdict:
  assumes "TotalBytes disk = 0"
  shows "\<not> failing 5 warned disk" "warning 5 5 bare_os warned disk"
  using assms by (simp_all add: failing_def warning_def disk_below_def warned_def NewTracker_def SetQueueCounts_def)

lemma warned_evaluation:
  obtains ns where "Evaluate (\<lambda>_. 0) (Inl EOF) 5 5 bare_os warned = (ns, bare_os, warned)" "State ns = StateWarn"
    "TotalBytes (Disk ns) = 0"
  by (auto simp: Evaluate_def GetDiskStats_def pruneErrors_def warned_def NewTracker_def SetQueueCounts_def check_role_def
      check_sender_def check_disk_def quiet_for_def Let_def)

theorem Evaluate_verdict_witness:
  "\<exists>ns. Evaluate (\<lambda>_. 0) (Inl EOF) 5 5 bare_os warned = (ns, bare_os, warned) \<and> State ns = StateWarn \<and> ActiveIssues ns \<noteq> []"
proof -
  obtain ns where e: "Evaluate (\<lambda>_. 0) (Inl EOF) 5 5 bare_os warned = (ns, bare_os, warned)" "TotalBytes (Disk ns) = 0"
    by (rule warned_evaluation)
  with Evaluate_verdict [OF bare_os_wf e(1)] warned_verdict [OF e(2)] show ?thesis by auto
qed


end
