(* ===== verification/Receiver_Server.thy ===== *)
theory Receiver_Server
  imports Receiver_Session Tls_Verify Monitor_Evaluate "HOL-Library.Multiset"
begin

text \<open>
  The receiver's server object, the rest of \<^verbatim>\<open>internal/receiver/listener.go\<close>: \<^verbatim>\<open>NewServer\<close>,
  \<^verbatim>\<open>Start\<close>, the accept loop, the goroutine around every connection and \<^verbatim>\<open>Close\<close>. The goroutines
  run concurrently, so they are a step relation: every step is one access to shared state, and any
  interleaving is a run.
\<close>

section \<open>Creation and start\<close>

definition NewServer_recv :: "path \<Rightarrow> string \<Rightarrow> string \<Rightarrow> string \<Rightarrow> string list \<Rightarrow> u64 \<Rightarrow> server" where
  "NewServer_recv incomingDir listenAddr certFile keyFile allowedSenderFPs maxSize =
     \<lparr>s_incomingDir = incomingDir, s_listenAddr = listenAddr, s_certFile = certFile, s_keyFile = keyFile,
      s_allowedSenderFPs = allowedSenderFPs, s_maxSize = maxSize, s_stop = None\<rparr>"

text \<open>The result of \<^verbatim>\<open>tls.Listen\<close> is the argument \<open>listen\<close>; success yields the configuration in use.\<close>

definition Start_recv ::
  "(string \<Rightarrow> string) \<Rightarrow> (string \<Rightarrow> string \<Rightarrow> error + 'cert) \<Rightarrow> error option \<Rightarrow> server \<Rightarrow> os \<Rightarrow> (error + 'cert tls_config) \<times> os"
where
  "Start_recv uni load listen sv s =
     (case BootCleanup s (s_incomingDir sv) of
        (Some err, s1) \<Rightarrow> (Inl (Wrap ''boot cleanup error: '' err ''''), s1)
      | (None, s1) \<Rightarrow>
     (case NewServerTLSConfig uni load (s_certFile sv) (s_keyFile sv) (s_allowedSenderFPs sv) of
        Inl err \<Rightarrow> (Inl (Wrap ''failed to create server TLS config: '' err ''''), s1)
      | Inr tlsCfg \<Rightarrow>
     (case listen of
        Some err \<Rightarrow> (Inl (Wrap (''failed to listen on '' @ s_listenAddr sv @ '': '') err ''''), s1)
      | None \<Rightarrow> (Inr tlsCfg, s1))))"

text \<open>\<^verbatim>\<open>Addr\<close> asks the listener, once there is one.\<close>

definition Addr_recv :: "('cert tls_config \<Rightarrow> 'addr) \<Rightarrow> 'cert tls_config option \<Rightarrow> 'addr option" where
  "Addr_recv addr lsn = (case lsn of Some l \<Rightarrow> Some (addr l) | None \<Rightarrow> None)"

section \<open>The goroutines\<close>

text \<open>
  Where the accept loop is: waiting, or with a new connection at one of the statements up to the
  \<^verbatim>\<open>go\<close>. \<open>Loaded\<close> holds the count it has read and not yet published.
\<close>

datatype acceptor =
  Idle | Accepted nat | Listed nat | Added nat | Counted nat | Loaded nat int | Published nat | Exited

text \<open>Where a connection's goroutine is: in \<^verbatim>\<open>handleConnection\<close>, or in its deferred calls.\<close>

datatype handler = Running | Unlisted | Discounted | Sampled int | Reported | Hungup

datatype closer = NotCalled | Stopped | ListenerClosed | ConnsClosed | Returned

record lsys =
  y_acceptor :: acceptor
  y_handlers :: "(nat \<times> handler) multiset"
  y_conns :: "nat set"
  y_active :: int
  y_tracker :: "tracker option"
  y_wg :: int
  y_stop :: bool
  y_listening :: bool
  y_closer :: closer
  y_closed :: "nat set"
  y_next :: nat

definition lsys_init :: "tracker option \<Rightarrow> lsys" where
  "lsys_init t = \<lparr>y_acceptor = Idle, y_handlers = {#}, y_conns = {}, y_active = 0, y_tracker = t, y_wg = 1,
     y_stop = False, y_listening = True, y_closer = NotCalled, y_closed = {}, y_next = 0\<rparr>"

inductive lstep :: "lsys \<Rightarrow> lsys \<Rightarrow> bool" where
  accept: "y_acceptor y = Idle \<Longrightarrow> y_listening y \<Longrightarrow>
    lstep y (y\<lparr>y_acceptor := Accepted (y_next y), y_next := Suc (y_next y)\<rparr>)"
| accept_stopped: "y_acceptor y = Idle \<Longrightarrow> y_stop y \<Longrightarrow>
    lstep y (y\<lparr>y_acceptor := Exited, y_wg := y_wg y - 1\<rparr>)"
| accept_error: "y_acceptor y = Idle \<Longrightarrow> \<not> y_stop y \<Longrightarrow>
    lstep y (y\<lparr>y_tracker := map_option (Tracker_RecordError now) (y_tracker y)\<rparr>)"
| register: "y_acceptor y = Accepted c \<Longrightarrow>
    lstep y (y\<lparr>y_acceptor := Listed c, y_conns := insert c (y_conns y)\<rparr>)"
| wg_add: "y_acceptor y = Listed c \<Longrightarrow> lstep y (y\<lparr>y_acceptor := Added c, y_wg := y_wg y + 1\<rparr>)"
| count: "y_acceptor y = Added c \<Longrightarrow> lstep y (y\<lparr>y_acceptor := Counted c, y_active := y_active y + 1\<rparr>)"
| load: "y_acceptor y = Counted c \<Longrightarrow> lstep y (y\<lparr>y_acceptor := Loaded c (y_active y)\<rparr>)"
| publish: "y_acceptor y = Loaded c k \<Longrightarrow>
    lstep y (y\<lparr>y_acceptor := Published c, y_tracker := map_option (SetActiveConnections k) (y_tracker y)\<rparr>)"
| spawn: "y_acceptor y = Published c \<Longrightarrow>
    lstep y (y\<lparr>y_acceptor := Idle, y_handlers := add_mset (c, Running) (y_handlers y)\<rparr>)"
| success: "(c, Running) \<in># y_handlers y \<Longrightarrow>
    lstep y (y\<lparr>y_tracker := map_option (Tracker_RecordSuccess now b) (y_tracker y)\<rparr>)"
| failure: "(c, Running) \<in># y_handlers y \<Longrightarrow>
    lstep y (y\<lparr>y_tracker := map_option (Tracker_RecordError now) (y_tracker y)\<rparr>)"
| unlist: "y_handlers y = add_mset (c, Running) hs \<Longrightarrow>
    lstep y (y\<lparr>y_handlers := add_mset (c, Unlisted) hs, y_conns := y_conns y - {c}\<rparr>)"
| discount: "y_handlers y = add_mset (c, Unlisted) hs \<Longrightarrow>
    lstep y (y\<lparr>y_handlers := add_mset (c, Discounted) hs, y_active := y_active y - 1\<rparr>)"
| sample: "y_handlers y = add_mset (c, Discounted) hs \<Longrightarrow>
    lstep y (y\<lparr>y_handlers := add_mset (c, Sampled (y_active y)) hs\<rparr>)"
| report: "y_handlers y = add_mset (c, Sampled k) hs \<Longrightarrow>
    lstep y (y\<lparr>y_handlers := add_mset (c, Reported) hs, y_tracker := map_option (SetActiveConnections k) (y_tracker y)\<rparr>)"
| hangup: "y_handlers y = add_mset (c, Reported) hs \<Longrightarrow>
    lstep y (y\<lparr>y_handlers := add_mset (c, Hungup) hs, y_closed := insert c (y_closed y)\<rparr>)"
| wg_done: "y_handlers y = add_mset (c, Hungup) hs \<Longrightarrow> lstep y (y\<lparr>y_handlers := hs, y_wg := y_wg y - 1\<rparr>)"
| close_stop: "y_closer y = NotCalled \<Longrightarrow> lstep y (y\<lparr>y_closer := Stopped, y_stop := True\<rparr>)"
| close_listener: "y_closer y = Stopped \<Longrightarrow> lstep y (y\<lparr>y_closer := ListenerClosed, y_listening := False\<rparr>)"
| close_conns: "y_closer y = ListenerClosed \<Longrightarrow>
    lstep y (y\<lparr>y_closer := ConnsClosed, y_closed := y_closed y \<union> y_conns y\<rparr>)"
| close_wait: "y_closer y = ConnsClosed \<Longrightarrow> y_wg y = 0 \<Longrightarrow> lstep y (y\<lparr>y_closer := Returned\<rparr>)"

section \<open>Invariant\<close>

definition in_accept :: "acceptor \<Rightarrow> nat set" where
  "in_accept a = (case a of
     Accepted c \<Rightarrow> {c} | Listed c \<Rightarrow> {c} | Added c \<Rightarrow> {c} | Counted c \<Rightarrow> {c} | Loaded c _ \<Rightarrow> {c} | Published c \<Rightarrow> {c}
   | _ \<Rightarrow> {})"

definition accept_listed :: "acceptor \<Rightarrow> nat set" where
  "accept_listed a = (case a of
     Listed c \<Rightarrow> {c} | Added c \<Rightarrow> {c} | Counted c \<Rightarrow> {c} | Loaded c _ \<Rightarrow> {c} | Published c \<Rightarrow> {c} | _ \<Rightarrow> {})"

definition accept_wg :: "acceptor \<Rightarrow> int" where
  "accept_wg a = (case a of
     Added _ \<Rightarrow> 2 | Counted _ \<Rightarrow> 2 | Loaded _ _ \<Rightarrow> 2 | Published _ \<Rightarrow> 2 | Exited \<Rightarrow> 0 | _ \<Rightarrow> 1)"

definition accept_active :: "acceptor \<Rightarrow> int" where
  "accept_active a = (case a of Counted _ \<Rightarrow> 1 | Loaded _ _ \<Rightarrow> 1 | Published _ \<Rightarrow> 1 | _ \<Rightarrow> 0)"

definition counted :: "nat \<times> handler \<Rightarrow> bool" where
  "counted h \<longleftrightarrow> snd h = Running \<or> snd h = Unlisted"

definition running :: "(nat \<times> handler) multiset \<Rightarrow> nat set" where
  "running hs = fst ` {h. h \<in># hs \<and> snd h = Running}"

definition lsys_inv :: "lsys \<Rightarrow> bool" where
  "lsys_inv y \<longleftrightarrow>
     y_wg y = accept_wg (y_acceptor y) + int (size (y_handlers y)) \<and>
     y_active y = accept_active (y_acceptor y) + int (size (filter_mset counted (y_handlers y))) \<and>
     y_conns y = accept_listed (y_acceptor y) \<union> running (y_handlers y) \<and>
     (\<forall>c. count (image_mset fst (y_handlers y)) c \<le> 1) \<and>
     in_accept (y_acceptor y) \<inter> fst ` set_mset (y_handlers y) = {} \<and>
     in_accept (y_acceptor y) \<union> fst ` set_mset (y_handlers y) \<subseteq> {..<y_next y} \<and>
     (y_closer y = Returned \<longrightarrow> y_wg y = 0)"

lemmas accept_defs = in_accept_def accept_listed_def accept_wg_def accept_active_def

lemma lsys_inv_init: "lsys_inv (lsys_init t)"
  by (simp add: lsys_inv_def lsys_init_def accept_defs running_def)

lemma fresh_in_rest:
  assumes "\<forall>d. count (image_mset fst (add_mset (c, h) hs)) d \<le> 1"
  shows "c \<notin> fst ` set_mset hs"
proof
  assume "c \<in> fst ` set_mset hs"
  then have "c \<in># image_mset fst hs" by simp
  then have "1 \<le> count (image_mset fst hs) c" by simp
  with spec [OF assms, of c] show False by simp
qed

lemma accept_wg_nonneg: "0 \<le> accept_wg a"
  by (simp add: accept_wg_def split: acceptor.splits)

lemma running_simps [simp]:
  "running {#} = {}"
  "running (add_mset (c, r) hs) = (if r = Running then insert c (running hs) else running hs)"
  by (auto simp: running_def image_iff)

lemma lsys_inv_step:
  assumes "lstep y z" "lsys_inv y"
  shows "lsys_inv z"
  using assms
proof cases
  case (unlist c hs)
  then have "c \<notin> fst ` set_mset hs" "c \<notin> in_accept (y_acceptor y)"
    using assms(2) fresh_in_rest [of c Running hs] by (auto simp: lsys_inv_def)
  moreover have "accept_listed (y_acceptor y) \<subseteq> in_accept (y_acceptor y)" by (auto simp: accept_defs split: acceptor.splits)
  moreover have "running hs \<subseteq> fst ` set_mset hs" by (auto simp: running_def)
  ultimately have "y_conns y - {c} = accept_listed (y_acceptor y) \<union> running hs"
    using assms(2) unlist by (auto simp: lsys_inv_def)
  with unlist assms(2) show ?thesis by (auto simp: lsys_inv_def counted_def)
next
  case (spawn c)
  with assms(2) have "c \<notin># image_mset fst (y_handlers y)" by (auto simp: lsys_inv_def accept_defs)
  then have "count (image_mset fst (y_handlers y)) c = 0" by (simp only: not_in_iff)
  with spawn assms(2) show ?thesis
    by (auto simp: lsys_inv_def accept_defs counted_def)
next
  case (wg_done c hs)
  have "count (image_mset fst hs) d \<le> 1" for d
  proof -
    have "count (image_mset fst (y_handlers y)) d \<le> 1" using assms(2) by (auto simp: lsys_inv_def)
    then show ?thesis unfolding wg_done by (simp split: if_splits)
  qed
  moreover have "y_closer y \<noteq> Returned"
    using assms(2) accept_wg_nonneg [of "y_acceptor y"] wg_done by (auto simp: lsys_inv_def)
  ultimately show ?thesis using wg_done assms(2) by (simp add: lsys_inv_def counted_def)
qed (use assms(2) in \<open>auto simp: lsys_inv_def accept_defs counted_def\<close>)

lemma lsys_reach_inv: "lstep\<^sup>*\<^sup>* (lsys_init t) y \<Longrightarrow> lsys_inv y"
  by (induction rule: rtranclp_induct) (auto intro: lsys_inv_init lsys_inv_step)

section \<open>Starting up\<close>

lemma remove_all_content:
  "content (remove_all s ps) q = content s q \<or> q \<in> set ps \<and> content (remove_all s ps) q = None"
proof (induction ps arbitrary: s)
  case (Cons p ps)
  obtain r s1 where 1: "Remove s p = (r, s1)" by fastforce
  from content_Remove [OF this] have "content s1 q = content s q \<or> q = p \<and> content s1 q = None" by auto
  with Cons.IH [of s1] 1 show ?case by auto
qed simp

lemma quiet_Remove_file:
  assumes "fs_wf s" "o_faults s = []" "ent s p = Some (Ino i)"
  obtains s1 where "Remove s p = (None, s1)" "fs_wf s1" "o_faults s1 = []" "ent s1 = (ent s)(p := None)"
proof -
  have "p \<noteq> []" using assms(1,3) by (auto simp: fs_wf_iff ent_def dest: map_of_SomeD)
  moreover have "\<not> list_ex (\<lambda>(q, _). child p q) (v_ents (o_fs s))"
  proof
    assume "list_ex (\<lambda>(q, _). child p q) (v_ents (o_fs s))"
    then obtain q e where "(q, e) \<in> set (v_ents (o_fs s))" "child p q" by (auto simp: list_ex_iff)
    then have "is_dir s p" using assms(1) by (auto simp: fs_wf_iff child_def)
    with assms(3) \<open>p \<noteq> []\<close> show False by (simp add: is_dir_def)
  qed
  ultimately have r: "Remove s p = (None, put_fs s ((o_fs s)\<lparr>v_ents := AList.delete p (v_ents (o_fs s))\<rparr>))"
    using assms(2,3) by (simp add: Remove_def fault_quiet Let_def)
  show thesis
    by (rule that [OF r fs_wf_Remove [OF assms(1) r]]) (use assms(2) in \<open>auto simp: put_fs_def ent_def delete_conv fun_eq_iff\<close>)
qed

lemma quiet_remove_all:
  assumes "fs_wf s" "o_faults s = []" "\<forall>p \<in> set ps. \<exists>i. ent s p = Some (Ino i)" "distinct ps"
  shows "ent (remove_all s ps) q = (if q \<in> set ps then None else ent s q)"
  using assms
proof (induction ps arbitrary: s)
  case (Cons p ps)
  then obtain i where "ent s p = Some (Ino i)" by auto
  with Cons.prems(1,2) obtain s1 where 1: "Remove s p = (None, s1)" "fs_wf s1" "o_faults s1 = []" "ent s1 = (ent s)(p := None)"
    by (rule quiet_Remove_file)
  have "\<forall>x \<in> set ps. \<exists>i. ent s1 x = Some (Ino i)"
  proof
    fix x
    assume "x \<in> set ps"
    with Cons.prems(3,4) have "x \<noteq> p" "\<exists>i. ent s x = Some (Ino i)" by auto
    then show "\<exists>i. ent s1 x = Some (Ino i)" by (simp add: 1(4))
  qed
  with Cons.IH [OF 1(2,3)] Cons.prems(4) 1(1,4) show ?case by simp
qed simp



section \<open>Connections and shutdown\<close>

lemma lstep_more: "lstep\<^sup>*\<^sup>* x y \<Longrightarrow> lstep y z \<Longrightarrow> lstep\<^sup>*\<^sup>* x z"
  by (rule rtranclp.rtrancl_into_rtrancl)

text \<open>
  The work left before the accept loop and the connections have ended, as the number of their
  remaining steps; a connection that is being accepted still has its goroutine's steps to make.
\<close>

definition accept_work :: "acceptor \<Rightarrow> nat" where
  "accept_work a = (case a of
     Exited \<Rightarrow> 0 | Idle \<Rightarrow> 1 | Published _ \<Rightarrow> 8 | Loaded _ _ \<Rightarrow> 9 | Counted _ \<Rightarrow> 10 | Added _ \<Rightarrow> 11 | Listed _ \<Rightarrow> 12
   | Accepted _ \<Rightarrow> 13)"

definition handler_work :: "handler \<Rightarrow> nat" where
  "handler_work h = (case h of
     Hungup \<Rightarrow> 1 | Reported \<Rightarrow> 2 | Sampled _ \<Rightarrow> 3 | Discounted \<Rightarrow> 4 | Unlisted \<Rightarrow> 5 | Running \<Rightarrow> 6)"

definition lwork :: "lsys \<Rightarrow> nat" where
  "lwork y = accept_work (y_acceptor y) + (\<Sum>h \<in># y_handlers y. handler_work (snd h))"

lemmas work_defs = lwork_def accept_work_def handler_work_def

definition drains :: "lsys \<Rightarrow> lsys \<Rightarrow> bool" where
  "drains y z \<longleftrightarrow> lstep y z \<and> y_stop z \<and> y_closer z = y_closer y \<and> lwork z < lwork y"

lemma accept_drains:
  assumes "y_stop y" "y_acceptor y \<noteq> Exited"
  shows "\<exists>z. drains y z"
proof (cases "y_acceptor y")
  case Idle
  then show ?thesis using accept_stopped [OF Idle assms(1)] assms(1) by (fastforce simp: drains_def work_defs)
next
  case (Accepted c)
  then show ?thesis using register [OF Accepted] assms(1) by (fastforce simp: drains_def work_defs)
next
  case (Listed c)
  then show ?thesis using wg_add [OF Listed] assms(1) by (fastforce simp: drains_def work_defs)
next
  case (Added c)
  then show ?thesis using count [OF Added] assms(1) by (fastforce simp: drains_def work_defs)
next
  case (Counted c)
  then show ?thesis using load [OF Counted] assms(1) by (fastforce simp: drains_def work_defs)
next
  case (Loaded c k)
  then show ?thesis using publish [OF Loaded] assms(1) by (fastforce simp: drains_def work_defs)
next
  case (Published c)
  then show ?thesis using spawn [OF Published] assms(1) by (fastforce simp: drains_def work_defs)
qed (use assms(2) in simp)

lemma handler_drains:
  assumes "y_stop y" "y_handlers y \<noteq> {#}"
  shows "\<exists>z. drains y z"
proof -
  obtain c h hs where hs: "y_handlers y = add_mset (c, h) hs" using assms(2) by (metis multiset_cases surj_pair)
  show ?thesis
  proof (cases h)
    case Running
    then show ?thesis using unlist [of y c hs] hs assms(1) by (fastforce simp: drains_def work_defs)
  next
    case Unlisted
    then show ?thesis using discount [of y c hs] hs assms(1) by (fastforce simp: drains_def work_defs)
  next
    case Discounted
    then show ?thesis using sample [of y c hs] hs assms(1) by (fastforce simp: drains_def work_defs)
  next
    case (Sampled k)
    then show ?thesis using report [of y c k hs] hs assms(1) by (fastforce simp: drains_def work_defs)
  next
    case Reported
    then show ?thesis using hangup [of y c hs] hs assms(1) by (fastforce simp: drains_def work_defs)
  next
    case Hungup
    then show ?thesis using wg_done [of y c hs] hs assms(1) by (fastforce simp: drains_def work_defs)
  qed
qed

lemma drained:
  assumes "y_stop y" "lsys_inv y"
  shows "\<exists>z. lstep\<^sup>*\<^sup>* y z \<and> lsys_inv z \<and> y_closer z = y_closer y \<and> y_wg z = 0"
  using assms
proof (induction "lwork y" arbitrary: y rule: less_induct)
  case less
  show ?case
  proof (cases "y_acceptor y = Exited \<and> y_handlers y = {#}")
    case True
    with less.prems(2) have "y_wg y = 0" by (simp add: lsys_inv_def accept_wg_def)
    with less.prems(2) show ?thesis by blast
  next
    case False
    then obtain z where z: "drains y z" using accept_drains handler_drains less.prems(1) by blast
    then have "lsys_inv z" using lsys_inv_step less.prems(2) unfolding drains_def by blast
    with less.hyps [of z] z obtain x where "lstep\<^sup>*\<^sup>* z x" "lsys_inv x" "y_closer x = y_closer z" "y_wg x = 0"
      unfolding drains_def by blast
    with z show ?thesis unfolding drains_def by (metis converse_rtranclp_into_rtranclp)
  qed
qed

text \<open>\<^verbatim>\<open>Close\<close> gets as far as waiting on its own.\<close>

lemma close_advances:
  assumes "y_closer y \<noteq> Returned" "y_closer y \<noteq> NotCalled \<longrightarrow> y_stop y"
  shows "\<exists>z. lstep\<^sup>*\<^sup>* y z \<and> y_closer z = ConnsClosed \<and> y_stop z"
proof -
  have conns: "\<exists>z. lstep\<^sup>*\<^sup>* y z \<and> y_closer z = ConnsClosed \<and> y_stop z" if "y_closer y = ListenerClosed" "y_stop y" for y
    using close_conns [OF that(1)] that(2) by (intro exI [of _ "y\<lparr>y_closer := ConnsClosed, y_closed := y_closed y \<union> y_conns y\<rparr>"]) auto
  have listener: "\<exists>z. lstep\<^sup>*\<^sup>* y z \<and> y_closer z = ConnsClosed \<and> y_stop z" if "y_closer y = Stopped" "y_stop y" for y
    using conns [of "y\<lparr>y_closer := ListenerClosed, y_listening := False\<rparr>"] close_listener [OF that(1)] that(2)
    by (simp, meson converse_rtranclp_into_rtranclp)
  have stop: "\<exists>z. lstep\<^sup>*\<^sup>* y z \<and> y_closer z = ConnsClosed \<and> y_stop z" if "y_closer y = NotCalled" for y
    using listener [of "y\<lparr>y_closer := Stopped, y_stop := True\<rparr>"] close_stop [OF that]
    by (simp, meson converse_rtranclp_into_rtranclp)
  show ?thesis using assms conns [of y] listener [of y] stop [of y] by (cases "y_closer y") auto
qed

lemma stop_with_closer: "lstep\<^sup>*\<^sup>* (lsys_init t) y \<Longrightarrow> y_closer y \<noteq> NotCalled \<longrightarrow> y_stop y"
proof (induction rule: rtranclp_induct)
  case base
  show ?case by (simp add: lsys_init_def)
next
  case (step y z)
  from step(2) show ?case by cases (use step(3) in auto)
qed

lemma Close_can_return:
  assumes "lstep\<^sup>*\<^sup>* (lsys_init t) y"
  shows "\<exists>z. lstep\<^sup>*\<^sup>* y z \<and> y_closer z = Returned"
proof (cases "y_closer y = Returned")
  case False
  then obtain x where x: "lstep\<^sup>*\<^sup>* y x" "y_closer x = ConnsClosed" "y_stop x"
    using close_advances stop_with_closer [OF assms] by blast
  have "lsys_inv x" using lsys_reach_inv rtranclp_trans [OF assms x(1)] by blast
  then obtain z where z: "lstep\<^sup>*\<^sup>* x z" "y_closer z = ConnsClosed" "y_wg z = 0" using drained [OF x(3)] x(2) by auto
  have "lstep\<^sup>*\<^sup>* y (z\<lparr>y_closer := Returned\<rparr>)"
    by (rule lstep_more [OF rtranclp_trans [OF x(1) z(1)] close_wait [OF z(2,3)]])
  then show ?thesis by (intro exI [of _ "z\<lparr>y_closer := Returned\<rparr>"]) simp
qed auto

text \<open>
  C25: in every reachable state of the accept loop, the connection goroutines and \<^verbatim>\<open>Close\<close>, in any
  interleaving: the connection counter is the number of connections that have been counted and
  not yet left, the set of connections is the set of those being served or about to be, and when
  \<^verbatim>\<open>Close\<close> has returned the accept loop has ended, no connection is being served and the
  counter is zero. \<^verbatim>\<open>Close\<close> can always still return: no interleaving leads to a deadlock.
\<close>

theorem Close_waits_for_connections:
  assumes "lstep\<^sup>*\<^sup>* (lsys_init t) y"
  shows "y_active y = accept_active (y_acceptor y) + int (size (filter_mset counted (y_handlers y))) \<and>
    y_conns y = accept_listed (y_acceptor y) \<union> running (y_handlers y) \<and>
    (y_closer y = Returned \<longrightarrow> y_acceptor y = Exited \<and> y_handlers y = {#} \<and> y_active y = 0 \<and> y_conns y = {}) \<and>
    (\<exists>z. lstep\<^sup>*\<^sup>* y z \<and> y_closer z = Returned)"
proof -
  have inv: "lsys_inv y" by (rule lsys_reach_inv [OF assms])
  moreover have "y_acceptor y = Exited \<and> y_handlers y = {#}" if "y_closer y = Returned"
  proof -
    have "accept_wg (y_acceptor y) + int (size (y_handlers y)) = 0" using inv that by (simp add: lsys_inv_def)
    then have "accept_wg (y_acceptor y) = 0" "size (y_handlers y) = 0"
      using accept_wg_nonneg [of "y_acceptor y"] by linarith+
    then show ?thesis by (auto simp: accept_wg_def split: acceptor.splits)
  qed
  moreover note Close_can_return [OF assms]
  ultimately show ?thesis by (auto simp: lsys_inv_def accept_defs)
qed

subsection \<open>Runs of several steps\<close>

lemma connect:
  assumes "y_acceptor y = Idle" "y_listening y"
  shows "lstep\<^sup>*\<^sup>* y (y\<lparr>y_handlers := add_mset (y_next y, Running) (y_handlers y), y_conns := insert (y_next y) (y_conns y),
    y_active := y_active y + 1, y_wg := y_wg y + 1, y_next := Suc (y_next y),
    y_tracker := map_option (SetActiveConnections (y_active y + 1)) (y_tracker y)\<rparr>)"
proof -
  define c where "c = y_next y"
  let ?a = "y\<lparr>y_acceptor := Accepted c, y_next := Suc c\<rparr>"
  let ?b = "?a\<lparr>y_acceptor := Listed c, y_conns := insert c (y_conns y)\<rparr>"
  let ?c = "?b\<lparr>y_acceptor := Added c, y_wg := y_wg y + 1\<rparr>"
  let ?d = "?c\<lparr>y_acceptor := Counted c, y_active := y_active y + 1\<rparr>"
  let ?e = "?d\<lparr>y_acceptor := Loaded c (y_active y + 1)\<rparr>"
  let ?f = "?e\<lparr>y_acceptor := Published c, y_tracker := map_option (SetActiveConnections (y_active y + 1)) (y_tracker y)\<rparr>"
  let ?g = "?f\<lparr>y_acceptor := Idle, y_handlers := add_mset (c, Running) (y_handlers y)\<rparr>"
  have "lstep y ?a" unfolding c_def by (rule accept [OF assms])
  then have a: "lstep\<^sup>*\<^sup>* y ?a" by (rule r_into_rtranclp)
  have b: "lstep\<^sup>*\<^sup>* y ?b" using register [of ?a c] by (intro lstep_more [OF a]) simp
  have c: "lstep\<^sup>*\<^sup>* y ?c" using wg_add [of ?b c] by (intro lstep_more [OF b]) simp
  have d: "lstep\<^sup>*\<^sup>* y ?d" using count [of ?c c] by (intro lstep_more [OF c]) simp
  have e: "lstep\<^sup>*\<^sup>* y ?e" using load [of ?d c] by (intro lstep_more [OF d]) simp
  have f: "lstep\<^sup>*\<^sup>* y ?f" using publish [of ?e c] by (intro lstep_more [OF e]) simp
  have g: "lstep\<^sup>*\<^sup>* y ?g" using spawn [of ?f c] by (intro lstep_more [OF f]) simp
  have "y\<lparr>y_handlers := add_mset (y_next y, Running) (y_handlers y), y_conns := insert (y_next y) (y_conns y),
    y_active := y_active y + 1, y_wg := y_wg y + 1, y_next := Suc (y_next y),
    y_tracker := map_option (SetActiveConnections (y_active y + 1)) (y_tracker y)\<rparr> = ?g"
    using assms(1) by (simp add: c_def)
  with g show ?thesis by (simp only:)
qed

lemma leave_and_sample:
  assumes "y_handlers y = add_mset (c, Running) hs"
  shows "lstep\<^sup>*\<^sup>* y (y\<lparr>y_handlers := add_mset (c, Sampled (y_active y - 1)) hs, y_conns := y_conns y - {c},
    y_active := y_active y - 1\<rparr>)"
proof -
  let ?a = "y\<lparr>y_handlers := add_mset (c, Unlisted) hs, y_conns := y_conns y - {c}\<rparr>"
  let ?b = "?a\<lparr>y_handlers := add_mset (c, Discounted) hs, y_active := y_active y - 1\<rparr>"
  let ?c = "?b\<lparr>y_handlers := add_mset (c, Sampled (y_active y - 1)) hs\<rparr>"
  have a: "lstep\<^sup>*\<^sup>* y ?a" by (rule r_into_rtranclp) (rule unlist [OF assms])
  have b: "lstep\<^sup>*\<^sup>* y ?b" using discount [of ?a c hs] by (intro lstep_more [OF a]) simp
  have c: "lstep\<^sup>*\<^sup>* y ?c" using sample [of ?b c hs] by (intro lstep_more [OF b]) simp
  have "y\<lparr>y_handlers := add_mset (c, Sampled (y_active y - 1)) hs, y_conns := y_conns y - {c},
    y_active := y_active y - 1\<rparr> = ?c" by simp
  with c show ?thesis by (simp only:)
qed

lemma report_and_end:
  assumes "y_handlers y = add_mset (c, Sampled k) hs"
  shows "lstep\<^sup>*\<^sup>* y (y\<lparr>y_handlers := hs, y_tracker := map_option (SetActiveConnections k) (y_tracker y),
    y_closed := insert c (y_closed y), y_wg := y_wg y - 1\<rparr>)"
proof -
  let ?a = "y\<lparr>y_handlers := add_mset (c, Reported) hs, y_tracker := map_option (SetActiveConnections k) (y_tracker y)\<rparr>"
  let ?b = "?a\<lparr>y_handlers := add_mset (c, Hungup) hs, y_closed := insert c (y_closed y)\<rparr>"
  let ?c = "?b\<lparr>y_handlers := hs, y_wg := y_wg y - 1\<rparr>"
  have a: "lstep\<^sup>*\<^sup>* y ?a" by (rule r_into_rtranclp) (rule report [OF assms])
  have b: "lstep\<^sup>*\<^sup>* y ?b" using hangup [of ?a c hs] by (intro lstep_more [OF a]) simp
  have c: "lstep\<^sup>*\<^sup>* y ?c" using wg_done [of ?b c hs] by (intro lstep_more [OF b]) simp
  have "y\<lparr>y_handlers := hs, y_tracker := map_option (SetActiveConnections k) (y_tracker y),
    y_closed := insert c (y_closed y), y_wg := y_wg y - 1\<rparr> = ?c" by simp
  with c show ?thesis by (simp only:)
qed

text \<open>
  The published number of connections can be wrong for good. Reading the counter and storing it
  in the tracker are two steps; when two connections end at the same time the older value can be
  stored last. There is a run after which no connection exists and the counter is zero, but the
  tracker says one, and then an abandoned staging file is not looked for, however old it is.
\<close>

theorem published_count_can_be_stale:
  "\<exists>y t'. lstep\<^sup>*\<^sup>* (lsys_init (Some t)) y \<and> y_acceptor y = Idle \<and> y_handlers y = {#} \<and> y_conns y = {} \<and> y_active y = 0 \<and>
     y_tracker y = Some t' \<and> t_activeConnections t' = 1 \<and>
     (\<exists>v'. \<forall>s. check_receiver now now1 s t' n v = (v', s))"
proof -
  let ?S = "\<lambda>k t. SetActiveConnections k t"
  let ?i = "lsys_init (Some t)"
  let ?y1 = "?i\<lparr>y_handlers := {#(0, Running)#}, y_conns := {0}, y_active := 1, y_wg := 2, y_next := 1, y_tracker := Some (?S 1 t)\<rparr>"
  let ?y2 = "?i\<lparr>y_handlers := {#(1, Running), (0, Running)#}, y_conns := {0, 1}, y_active := 2, y_wg := 3, y_next := 2,
    y_tracker := Some (?S 2 (?S 1 t))\<rparr>"
  let ?y3 = "?y2\<lparr>y_handlers := {#(0, Sampled 1), (1, Running)#}, y_conns := {1}, y_active := 1\<rparr>"
  let ?y4 = "?y2\<lparr>y_handlers := {#(1, Sampled 0), (0, Sampled 1)#}, y_conns := {}, y_active := 0\<rparr>"
  let ?y5 = "?y4\<lparr>y_handlers := {#(0, Sampled 1)#}, y_tracker := Some (?S 0 (?S 2 (?S 1 t))), y_closed := {1}, y_wg := 2\<rparr>"
  let ?y6 = "?y5\<lparr>y_handlers := {#}, y_tracker := Some (?S 1 (?S 0 (?S 2 (?S 1 t)))), y_closed := {0, 1}, y_wg := 1\<rparr>"
  have 1: "lstep\<^sup>*\<^sup>* ?i ?y1" using connect [of ?i] by (simp add: lsys_init_def)
  have 2: "lstep\<^sup>*\<^sup>* ?y1 ?y2" using connect [of ?y1] by (simp add: lsys_init_def numeral_2_eq_2 insert_commute)
  have 3: "lstep\<^sup>*\<^sup>* ?y2 ?y3" using leave_and_sample [of ?y2 0 "{#(1, Running)#}"] by (simp add: add_mset_commute)
  have 4: "lstep\<^sup>*\<^sup>* ?y3 ?y4" using leave_and_sample [of ?y3 1 "{#(0, Sampled 1)#}"] by (simp add: add_mset_commute)
  have 5: "lstep\<^sup>*\<^sup>* ?y4 ?y5" using report_and_end [of ?y4 1 0 "{#(0, Sampled 1)#}"] by (simp add: lsys_init_def)
  have 6: "lstep\<^sup>*\<^sup>* ?y5 ?y6" using report_and_end [of ?y5 0 1 "{#}"] by simp
  have "lstep\<^sup>*\<^sup>* ?i ?y6"
    by (rule rtranclp_trans [OF 1 rtranclp_trans [OF 2 rtranclp_trans [OF 3 rtranclp_trans [OF 4 rtranclp_trans [OF 5 6]]]]])
  then show ?thesis
    by (intro exI [of _ ?y6] exI [of _ "?S 1 (?S 0 (?S 2 (?S 1 t)))"])
      (simp add: lsys_init_def SetActiveConnections_def check_receiver_def Let_def)
qed

text \<open>
  \<^verbatim>\<open>Close\<close> does not close every connection. A connection accepted before the listener was
  closed and registered only after \<^verbatim>\<open>Close\<close> has gone through the set is served although the server
  is stopping; \<^verbatim>\<open>Close\<close> then waits for it instead of closing it.
\<close>

theorem late_connection_not_closed:
  "\<exists>y. lstep\<^sup>*\<^sup>* (lsys_init t) y \<and> y_closer y = ConnsClosed \<and> y_stop y \<and> \<not> y_listening y \<and>
     (0, Running) \<in># y_handlers y \<and> 0 \<in> y_conns y \<and> 0 \<notin> y_closed y"
proof -
  let ?i = "lsys_init t"
  let ?a = "?i\<lparr>y_acceptor := Accepted 0, y_next := 1\<rparr>"
  let ?b = "?a\<lparr>y_closer := Stopped, y_stop := True\<rparr>"
  let ?c = "?b\<lparr>y_closer := ListenerClosed, y_listening := False\<rparr>"
  let ?d = "?c\<lparr>y_closer := ConnsClosed, y_closed := {}\<rparr>"
  let ?e = "?d\<lparr>y_acceptor := Listed 0, y_conns := {0}\<rparr>"
  let ?f = "?e\<lparr>y_acceptor := Added 0, y_wg := 2\<rparr>"
  let ?g = "?f\<lparr>y_acceptor := Counted 0, y_active := 1\<rparr>"
  let ?h = "?g\<lparr>y_acceptor := Loaded 0 1\<rparr>"
  let ?k = "?h\<lparr>y_acceptor := Published 0, y_tracker := map_option (SetActiveConnections 1) t\<rparr>"
  let ?l = "?k\<lparr>y_acceptor := Idle, y_handlers := {#(0, Running)#}\<rparr>"
  have "lstep ?i ?a" using accept [of ?i] by (simp add: lsys_init_def)
  then have a: "lstep\<^sup>*\<^sup>* ?i ?a" by (rule r_into_rtranclp)
  have b: "lstep\<^sup>*\<^sup>* ?i ?b" using close_stop [of ?a] by (intro lstep_more [OF a]) (simp add: lsys_init_def)
  have c: "lstep\<^sup>*\<^sup>* ?i ?c" using close_listener [of ?b] by (intro lstep_more [OF b]) simp
  have d: "lstep\<^sup>*\<^sup>* ?i ?d" using close_conns [of ?c] by (intro lstep_more [OF c]) (simp add: lsys_init_def)
  have e: "lstep\<^sup>*\<^sup>* ?i ?e" using register [of ?d 0] by (intro lstep_more [OF d]) (simp add: lsys_init_def)
  have f: "lstep\<^sup>*\<^sup>* ?i ?f" using wg_add [of ?e 0] by (intro lstep_more [OF e]) (simp add: lsys_init_def)
  have g: "lstep\<^sup>*\<^sup>* ?i ?g" using count [of ?f 0] by (intro lstep_more [OF f]) (simp add: lsys_init_def)
  have h: "lstep\<^sup>*\<^sup>* ?i ?h" using load [of ?g 0] by (intro lstep_more [OF g]) simp
  have k: "lstep\<^sup>*\<^sup>* ?i ?k" using publish [of ?h 0 1] by (intro lstep_more [OF h]) (simp add: lsys_init_def)
  have "lstep\<^sup>*\<^sup>* ?i ?l" using spawn [of ?k 0] by (intro lstep_more [OF k]) (simp add: lsys_init_def)
  then show ?thesis by (intro exI [of _ ?l]) (simp add: lsys_init_def)
qed

section \<open>Witnesses\<close>

definition littered :: os where
  "littered = demo_os\<lparr>o_fs := \<lparr>v_ents = [([''in''], Dir), ([''in'', ''.staging''], Dir),
      ([''in'', ''.staging'', ''a.tmp''], Ino 0)], v_disk = [], v_inodes = v_inodes (o_fs demo_os)\<rparr>\<rparr>"



theorem Close_waits_for_connections_witness:
  "\<exists>y. lstep\<^sup>*\<^sup>* (lsys_init None) y \<and> y_closer y = Returned \<and> y_handlers y = {#}"
proof -
  let ?i = "lsys_init None"
  let ?b = "?i\<lparr>y_closer := Stopped, y_stop := True\<rparr>"
  let ?c = "?b\<lparr>y_closer := ListenerClosed, y_listening := False\<rparr>"
  let ?d = "?c\<lparr>y_closer := ConnsClosed, y_closed := {}\<rparr>"
  let ?e = "?d\<lparr>y_acceptor := Exited, y_wg := 0\<rparr>"
  let ?f = "?e\<lparr>y_closer := Returned\<rparr>"
  have "lstep ?i ?b" using close_stop [of ?i] by (simp add: lsys_init_def)
  then have b: "lstep\<^sup>*\<^sup>* ?i ?b" by (rule r_into_rtranclp)
  have c: "lstep\<^sup>*\<^sup>* ?i ?c" using close_listener [of ?b] by (intro lstep_more [OF b]) simp
  have d: "lstep\<^sup>*\<^sup>* ?i ?d" using close_conns [of ?c] by (intro lstep_more [OF c]) (simp add: lsys_init_def)
  have e: "lstep\<^sup>*\<^sup>* ?i ?e" using accept_stopped [of ?d] by (intro lstep_more [OF d]) (simp add: lsys_init_def)
  have f: "lstep\<^sup>*\<^sup>* ?i ?f" using close_wait [of ?e] by (intro lstep_more [OF e]) simp
  from Close_waits_for_connections [OF f] f show ?thesis by (intro exI [of _ ?f]) simp
qed

end
