(* ===== verification/Monitor_Server.thy ===== *)
theory Monitor_Server
  imports Monitor_Evaluate Tls_Verify
begin

text \<open>
  The status server of \<^verbatim>\<open>internal/monitor/server.go\<close>: the choice between a plain and a mutually
  authenticated listener, and the three HTTP handlers. A handler is a function from the request's
  method to the response it writes; the evaluation it triggers is \<open>Evaluate\<close> of the tracker.
  Parameters are the JSON encoder \<open>encode\<close> and the quoting \<open>quote\<close> of \<^verbatim>\<open>%q\<close>.
\<close>

section \<open>Addresses\<close>

text \<open>
  The host part that \<^verbatim>\<open>net.SplitHostPort\<close> returns; \<open>None\<close> when it reports an error: no port,
  too many colons, or brackets out of place.
\<close>

definition index_byte :: "char \<Rightarrow> string \<Rightarrow> nat option" where
  "index_byte c s = (if c \<in> set s then Some (length (takeWhile (\<lambda>x. x \<noteq> c) s)) else None)"

definition last_index :: "char \<Rightarrow> string \<Rightarrow> nat option" where
  "last_index c s = map_option (\<lambda>k. length s - Suc k) (index_byte c (rev s))"

definition SplitHostPort :: "string \<Rightarrow> (string \<times> string) option" where
  "SplitHostPort hostport =
     (case last_index (CHR '':'') hostport of
        None \<Rightarrow> None
      | Some i \<Rightarrow>
          (let result = (\<lambda>host j k.
                 if CHR ''['' \<in> set (drop j hostport) \<or> CHR '']'' \<in> set (drop k hostport) then None
                 else Some (host, drop (Suc i) hostport)) in
           if hd hostport = CHR ''['' then
             (case index_byte (CHR '']'') hostport of
                None \<Rightarrow> None
              | Some e \<Rightarrow> if e + 1 = i then result (take (e - 1) (drop 1 hostport)) 1 (e + 1) else None)
           else
             (let host = take i hostport in
              if CHR '':'' \<in> set host then None else result host 0 0)))"

definition host_of :: "string \<Rightarrow> string" where
  "host_of bindAddr = (case SplitHostPort bindAddr of None \<Rightarrow> bindAddr | Some (host, _) \<Rightarrow> host)"

definition isLoopback :: "string \<Rightarrow> bool" where
  "isLoopback host \<longleftrightarrow> host = ''127.0.0.1'' \<or> host = ''localhost'' \<or> host = ''::1''"

section \<open>The server\<close>

text \<open>The limits of the HTTP server that \<^verbatim>\<open>NewServer\<close> sets up; its handler is \<open>serve\<close> below.\<close>

record http_server =
  hs_Addr :: string
  hs_ReadTimeout :: int
  hs_WriteTimeout :: int
  hs_IdleTimeout :: int

definition new_http_server :: "string \<Rightarrow> http_server" where
  "new_http_server bindAddr =
     \<lparr>hs_Addr = bindAddr, hs_ReadTimeout = 10 * second, hs_WriteTimeout = 10 * second, hs_IdleTimeout = 30 * second\<rparr>"

record mserver =
  ms_bindAddr :: string
  ms_certFile :: string
  ms_keyFile :: string
  ms_statusPeerFP :: string
  ms_httpServer :: "http_server option"

definition NewServer :: "string \<Rightarrow> string \<Rightarrow> string \<Rightarrow> string \<Rightarrow> error + mserver" where
  "NewServer bindAddr certFile keyFile statusPeerFP =
     (let host = host_of bindAddr in
      if \<not> isLoopback host \<and> statusPeerFP = ''''
      then Inl (New ''security error: binding status listener to non-loopback address requires -status-peer-fp'')
      else Inr \<lparr>ms_bindAddr = bindAddr, ms_certFile = certFile, ms_keyFile = keyFile, ms_statusPeerFP = statusPeerFP,
        ms_httpServer = Some (new_http_server bindAddr)\<rparr>)"

text \<open>The listener a server ends up with. \<open>listen\<close> is the result of binding the address.\<close>

datatype 'cert listener = Plain string | Tls string "'cert tls_config"

definition Server_Start ::
  "(string \<Rightarrow> string) \<Rightarrow> (string \<Rightarrow> string \<Rightarrow> error + 'cert) \<Rightarrow> error option \<Rightarrow> mserver \<Rightarrow> error + 'cert listener"
where
  "Server_Start uni load listen sv =
     (let host = host_of (ms_bindAddr sv) in
      if isLoopback host \<or> ms_statusPeerFP sv = '''' then
        (case listen of
           Some err \<Rightarrow> Inl (Wrap (''failed to listen on status addr '' @ ms_bindAddr sv @ '': '') err '''')
         | None \<Rightarrow> Inr (Plain (ms_bindAddr sv)))
      else
        (case NewServerTLSConfig uni load (ms_certFile sv) (ms_keyFile sv) [ms_statusPeerFP sv] of
           Inl err \<Rightarrow> Inl (Wrap ''failed to configure TLS for status server: '' err '''')
         | Inr tlsCfg \<Rightarrow>
             (case listen of
                Some err \<Rightarrow> Inl (Wrap (''failed to tls.Listen on status addr '' @ ms_bindAddr sv @ '': '') err '''')
              | None \<Rightarrow> Inr (Tls (ms_bindAddr sv) tlsCfg))))"

text \<open>
  Closing and asking for the address only pass the call on, to \<^verbatim>\<open>http.Server.Close\<close> and to the
  listener's \<^verbatim>\<open>Addr\<close>; the results of these two are the arguments.
\<close>

definition Server_Close :: "(http_server \<Rightarrow> error option) \<Rightarrow> mserver \<Rightarrow> error option" where
  "Server_Close http_close sv = (case ms_httpServer sv of Some h \<Rightarrow> http_close h | None \<Rightarrow> None)"

definition Server_Addr :: "('cert listener \<Rightarrow> 'addr) \<Rightarrow> 'cert listener option \<Rightarrow> 'addr option" where
  "Server_Addr addr lsn = (case lsn of Some l \<Rightarrow> Some (addr l) | None \<Rightarrow> None)"

text \<open>
  A server that was created always has an HTTP server, so closing it is never skipped, and what is
  closed is the server of the configured address, whose limits are all finite.
\<close>

lemma created_server_closes:
  assumes "NewServer bindAddr certFile keyFile statusPeerFP = Inr sv"
  shows "\<exists>h. Server_Close http_close sv = http_close h \<and> hs_Addr h = ms_bindAddr sv \<and>
    0 < hs_ReadTimeout h \<and> 0 < hs_WriteTimeout h \<and> 0 < hs_IdleTimeout h"
  using assms by (auto simp: NewServer_def Server_Close_def new_http_server_def second_def Let_def split: if_splits)

section \<open>Handlers\<close>

record response =
  r_code :: nat
  r_contentType :: string
  r_body :: string

definition nl :: char where "nl = CHR 0x0A"

definition method_not_allowed :: response where
  "method_not_allowed =
     \<lparr>r_code = 405, r_contentType = ''text/plain; charset=utf-8'', r_body = ''Method Not Allowed'' @ [nl]\<rparr>"

definition state_string :: "health_state \<Rightarrow> string" where
  "state_string st = (case st of StateOK \<Rightarrow> ''ok'' | StateWarn \<Rightarrow> ''warn'' | StateFail \<Rightarrow> ''fail'')"

definition role_string :: "role \<Rightarrow> string" where
  "role_string r = (case r of RoleSender \<Rightarrow> ''sender'' | RoleReceiver \<Rightarrow> ''receiver'')"

text \<open>
  The evaluation is a parameter here: the result of \<open>Evaluate\<close> at the moment of the request,
  which is not performed for other methods.
\<close>

type_synonym ('a, 'b) handler = "string \<Rightarrow> (unit \<Rightarrow> NodeStatus \<times> 'a \<times> 'b) \<Rightarrow> 'a \<Rightarrow> 'b \<Rightarrow> response \<times> 'a \<times> 'b"

definition handleStatus :: "(NodeStatus \<Rightarrow> string) \<Rightarrow> ('a, 'b) handler" where
  "handleStatus encode meth evaluate s t =
     (if meth \<noteq> ''GET'' then (method_not_allowed, s, t)
      else (case evaluate () of (st, s1, t1) \<Rightarrow>
        (\<lparr>r_code = 200, r_contentType = ''application/json'', r_body = encode st @ [nl]\<rparr>, s1, t1)))"

definition healthz_response :: "NodeStatus \<Rightarrow> response" where
  "healthz_response st =
     (if State st = StateFail then
        (let msg = ''Service Unavailable (FAIL)'' @ [nl];
             msg1 = (if length (ActiveIssues st) > 0 then msg @ Join (ActiveIssues st) [nl] @ [nl] else msg)
         in \<lparr>r_code = 503, r_contentType = ''text/plain; charset=utf-8'', r_body = msg1\<rparr>)
      else
        \<lparr>r_code = 200, r_contentType = ''text/plain; charset=utf-8'',
         r_body = ''OK ('' @ state_string (State st) @ '')'' @ [nl]\<rparr>)"

definition handleHealthz :: "('a, 'b) handler" where
  "handleHealthz meth evaluate s t =
     (if meth \<noteq> ''GET'' then (method_not_allowed, s, t)
      else (case evaluate () of (st, s1, t1) \<Rightarrow> (healthz_response st, s1, t1)))"

definition stateVal :: "health_state \<Rightarrow> nat" where
  "stateVal st = (case st of StateOK \<Rightarrow> 0 | StateWarn \<Rightarrow> 1 | StateFail \<Rightarrow> 2)"

definition metric :: "(string \<Rightarrow> string) \<Rightarrow> NodeStatus \<Rightarrow> string \<Rightarrow> string \<Rightarrow> string \<Rightarrow> string \<Rightarrow> string" where
  "metric quote st name help kind val =
     ''# HELP '' @ name @ '' '' @ help @ [nl] @ ''# TYPE '' @ name @ '' '' @ kind @ [nl] @
     name @ ''{node='' @ quote (NodeID st) @ '',role='' @ quote (role_string (Role st)) @ ''} '' @ val @ [nl]"

definition metrics_body :: "(string \<Rightarrow> string) \<Rightarrow> NodeStatus \<Rightarrow> string" where
  "metrics_body quote st =
     metric quote st ''xport_state'' ''Current health state (0=OK, 1=WARN, 2=FAIL)'' ''gauge'' (itoa (stateVal (State st))) @
     metric quote st ''xport_files_total'' ''Total files processed'' ''counter'' (itoa (unat (FilesTotal st))) @
     metric quote st ''xport_bytes_total'' ''Total bytes processed'' ''counter'' (itoa (unat (BytesTotal st))) @
     metric quote st ''xport_pending_files'' ''Current queue depth'' ''gauge'' (fmt_int (WaitingFiles st)) @
     metric quote st ''xport_failed_files'' ''Files in failed quarantine'' ''gauge'' (fmt_int (FailedFiles st)) @
     metric quote st ''xport_disk_free_percent'' ''Free disk space percentage'' ''gauge'' (fmt_int (FreePercent (Disk st)))"

definition handleMetrics :: "(string \<Rightarrow> string) \<Rightarrow> ('a, 'b) handler" where
  "handleMetrics quote meth evaluate s t =
     (if meth \<noteq> ''GET'' then (method_not_allowed, s, t)
      else (case evaluate () of (st, s1, t1) \<Rightarrow>
        (\<lparr>r_code = 200, r_contentType = ''text/plain; version=0.0.4'', r_body = metrics_body quote st\<rparr>, s1, t1)))"

text \<open>The routes of \<^verbatim>\<open>NewServer\<close>: every other path is answered with 404 by the multiplexer.\<close>

definition serve :: "(NodeStatus \<Rightarrow> string) \<Rightarrow> (string \<Rightarrow> string) \<Rightarrow> string \<Rightarrow> ('a, 'b) handler" where
  "serve encode quote url =
     (if url = ''/status'' then handleStatus encode
      else if url = ''/healthz'' then handleHealthz
      else if url = ''/metrics'' then handleMetrics quote
      else (\<lambda>meth evaluate s t.
        (\<lparr>r_code = 404, r_contentType = ''text/plain; charset=utf-8'', r_body = ''404 page not found'' @ [nl]\<rparr>, s, t)))"

section \<open>Properties\<close>

text \<open>
  C19: the status server never listens in the clear on an outside address. A server that could be
  created and started either listens plainly on a loopback host, or behind TLS 1.3 with a required
  client certificate, and the certificate check accepts exactly the clients whose first certificate
  has the configured fingerprint of the monitor.
\<close>

theorem status_server_protected:
  assumes "NewServer bindAddr certFile keyFile statusPeerFP = Inr sv" "Server_Start uni load listen sv = Inr lsn"
  shows "case lsn of
      Plain a \<Rightarrow> a = bindAddr \<and> isLoopback (host_of bindAddr)
    | Tls a cfg \<Rightarrow> a = bindAddr \<and> \<not> isLoopback (host_of bindAddr) \<and> MinVersion cfg = VersionTLS13 \<and>
        ClientAuth cfg = RequireAnyClientCert \<and>
        (\<forall>certs. VerifyPeerCertificate cfg certs = None \<longleftrightarrow>
           (\<exists>der rest. certs = der # rest \<and> pinned uni [statusPeerFP] der))"
proof -
  have sv: "sv = \<lparr>ms_bindAddr = bindAddr, ms_certFile = certFile, ms_keyFile = keyFile, ms_statusPeerFP = statusPeerFP,
      ms_httpServer = Some (new_http_server bindAddr)\<rparr>"
    and ok: "isLoopback (host_of bindAddr) \<or> statusPeerFP \<noteq> ''''"
    using assms(1) by (auto simp: NewServer_def Let_def split: if_splits)
  show ?thesis
    using assms(2) ok
    by (auto simp: Server_Start_def sv NewServerTLSConfig_def verify_pinned Let_def
        split: if_splits option.splits sum.splits)
qed

section \<open>Witnesses\<close>

theorem status_server_protected_witness:
  "NewServer ''10.0.0.5:9100'' ''c'' ''k'' ''ab'' =
     Inr \<lparr>ms_bindAddr = ''10.0.0.5:9100'', ms_certFile = ''c'', ms_keyFile = ''k'', ms_statusPeerFP = ''ab'',
       ms_httpServer = Some (new_http_server ''10.0.0.5:9100'')\<rparr> \<and>
   (\<exists>cfg. Server_Start (\<lambda>s. s) (\<lambda>_ _. Inr ()) None
       \<lparr>ms_bindAddr = ''10.0.0.5:9100'', ms_certFile = ''c'', ms_keyFile = ''k'', ms_statusPeerFP = ''ab'',
       ms_httpServer = Some (new_http_server ''10.0.0.5:9100'')\<rparr> =
       Inr (Tls ''10.0.0.5:9100'' cfg) \<and> ClientAuth cfg = RequireAnyClientCert)"
proof -
  let ?sv = "\<lparr>ms_bindAddr = ''10.0.0.5:9100'', ms_certFile = ''c'', ms_keyFile = ''k'', ms_statusPeerFP = ''ab'',
       ms_httpServer = Some (new_http_server ''10.0.0.5:9100'')\<rparr>"
  have host: "host_of ''10.0.0.5:9100'' = ''10.0.0.5''" by code_simp
  have n: "NewServer ''10.0.0.5:9100'' ''c'' ''k'' ''ab'' = Inr ?sv" by (simp add: NewServer_def)
  obtain cfg where s: "Server_Start (\<lambda>s. s) (\<lambda>_ _. Inr ()) None ?sv = Inr (Tls ''10.0.0.5:9100'' cfg)"
    by (auto simp: Server_Start_def host isLoopback_def NewServerTLSConfig_def)
  from status_server_protected [OF n s] n s show ?thesis by simp
qed

end
