(* ===== verification/Byte_Size.thy ===== *)
theory Byte_Size
  imports Float64 Go_Strings Go_IO
begin

text \<open>
  Sizes with units, \<^verbatim>\<open>ParseByteSize\<close> of \<^verbatim>\<open>internal/wire/protocol.go\<close>: a decimal number is
  read as a \<^verbatim>\<open>float64\<close>, multiplied and truncated. Parameters are the Unicode case mapping
  \<open>uni\<close>, the quoting \<open>quote\<close> of \<^verbatim>\<open>%q\<close> in error texts, and \<open>wide\<close>, the conversion to \<^verbatim>\<open>uint64\<close> of
  values that do not fit, which Go leaves to the implementation.
\<close>

section \<open>Decimal numbers\<close>

definition is_digit :: "char \<Rightarrow> bool" where
  "is_digit c \<longleftrightarrow> 48 \<le> (of_char c :: nat) \<and> of_char c \<le> (57 :: nat)"

definition digits_val :: "string \<Rightarrow> nat" where
  "digits_val s = foldl (\<lambda>v c. 10 * v + (of_char c - 48)) 0 s"

text \<open>
  The numbers \<^verbatim>\<open>strconv.ParseFloat\<close> accepts among strings of digits and dots: an integer part
  and a fractional part, one of them not empty, and at most one dot.
\<close>

definition parse_decimal :: "string \<Rightarrow> rat option" where
  "parse_decimal s =
     (let ip = takeWhile (\<lambda>c. c \<noteq> CHR ''.'') s; fp = drop (Suc (length ip)) s in
      if list_all is_digit (ip @ fp) \<and> ip @ fp \<noteq> []
      then Some (of_nat (digits_val (ip @ fp)) / 10 ^ length fp) else None)"

definition ErrSyntax :: error where "ErrSyntax = New ''invalid syntax''"
definition ErrRange :: error where "ErrRange = New ''value out of range''"

definition NumError :: "(string \<Rightarrow> string) \<Rightarrow> string \<Rightarrow> error \<Rightarrow> error" where
  "NumError quote num err = Wrap (''strconv.ParseFloat: parsing '' @ quote num @ '': '') err ''''"

definition float_limit :: rat where "float_limit = 2 ^ 1024"

definition ParseFloat :: "(string \<Rightarrow> string) \<Rightarrow> string \<Rightarrow> error + rat" where
  "ParseFloat quote s =
     (case parse_decimal s of
        None \<Rightarrow> Inl (NumError quote s ErrSyntax)
      | Some x \<Rightarrow> if float_limit \<le> rnd x then Inl (NumError quote s ErrRange) else Inr (rnd x))"

text \<open>\<^verbatim>\<open>uint64(x)\<close>: truncation where the result fits.\<close>

definition float_to_u64 :: "(rat \<Rightarrow> u64) \<Rightarrow> rat \<Rightarrow> u64" where
  "float_to_u64 wide x = (if x < 2 ^ 64 then of_int \<lfloor>x\<rfloor> else wide x)"

section \<open>Sizes\<close>

definition unit_table :: "(string \<times> nat) list" where
  "unit_table =
     [('''', 1), (''B'', 1), (''K'', 10 ^ 3), (''KB'', 10 ^ 3), (''KIB'', 1024), (''M'', 10 ^ 6), (''MB'', 10 ^ 6),
      (''MIB'', 1024 * 1024), (''G'', 10 ^ 9), (''GB'', 10 ^ 9), (''GIB'', 1024 * 1024 * 1024),
      (''T'', 10 ^ 12), (''TB'', 10 ^ 12), (''TIB'', 1024 * 1024 * 1024 * 1024)]"

definition unit_bytes :: "string \<Rightarrow> nat option" where
  "unit_bytes = map_of unit_table"

definition ParseByteSize ::
  "(string \<Rightarrow> string) \<Rightarrow> (string \<Rightarrow> string) \<Rightarrow> (rat \<Rightarrow> u64) \<Rightarrow> string \<Rightarrow> error + u64"
where
  "ParseByteSize uni quote wide s0 =
     (let s = TrimSpace s0 in
      if s = '''' then Inl (New ''empty byte size'')
      else
        (let idx = length (takeWhile (\<lambda>c. is_digit c \<or> c = CHR ''.'') s);
             numStr = TrimSpace (take idx s);
             unitStr = TrimSpace (ToUpper uni (drop idx s)) in
         case ParseFloat quote numStr of
           Inl err \<Rightarrow> Inl (Wrap (''invalid number in byte size '' @ quote s @ '': '') err '''')
         | Inr val \<Rightarrow>
             if val < 0 then Inl (New (''negative byte size '' @ quote s))
             else
               (case unit_bytes unitStr of
                  None \<Rightarrow> Inl (New (''unknown byte unit '' @ quote unitStr))
                | Some multiplier \<Rightarrow> Inr (float_to_u64 wide (rnd (val * of_nat multiplier))))))"

section \<open>Splitting number and unit\<close>

lemma dot_code [simp]: "(of_char CHR ''.'' :: nat) = 46"
  by code_simp

lemma number_untrimmed: "list_all (\<lambda>c. is_digit c \<or> c = CHR ''.'') s \<Longrightarrow> TrimSpace s = s"
proof (rule TrimSpace_id)
  assume a: "list_all (\<lambda>c. is_digit c \<or> c = CHR ''.'') s"
  have "visible_ascii c" if "c \<in> set s" for c
  proof -
    from a that have "is_digit c \<or> c = CHR ''.''" by (simp add: list_all_iff)
    then show ?thesis by (auto simp: is_digit_def visible_ascii_def)
  qed
  then show "s = [] \<or> visible_ascii (hd s) \<and> visible_ascii (last s)" by (cases s) simp_all
qed

lemma takeWhile_all: "list_all P (takeWhile P s)"
  by (auto simp: list_all_iff dest: set_takeWhileD)

text \<open>The value an accepted size stands for.\<close>

definition size_value :: "(string \<Rightarrow> string) \<Rightarrow> string \<Rightarrow> (rat \<times> nat) option" where
  "size_value uni s =
     (let t = TrimSpace s; num = takeWhile (\<lambda>c. is_digit c \<or> c = CHR ''.'') t in
      case parse_decimal num of
        None \<Rightarrow> None
      | Some x \<Rightarrow> map_option (\<lambda>m. (x, m)) (unit_bytes (TrimSpace (ToUpper uni (drop (length num) t)))))"

lemma parse_decimal_nonneg: "parse_decimal s = Some x \<Longrightarrow> 0 \<le> x"
  by (auto simp: parse_decimal_def Let_def split: if_splits)

lemma ParseByteSize_value:
  "ParseByteSize uni quote wide s =
     (let t = TrimSpace s; num = takeWhile (\<lambda>c. is_digit c \<or> c = CHR ''.'') t;
          u = TrimSpace (ToUpper uni (drop (length num) t)) in
      if t = '''' then Inl (New ''empty byte size'')
      else case size_value uni s of
        Some (x, m) \<Rightarrow>
          if float_limit \<le> rnd x
          then Inl (Wrap (''invalid number in byte size '' @ quote t @ '': '') (NumError quote num ErrRange) '''')
          else Inr (float_to_u64 wide (rnd (rnd x * of_nat m)))
      | None \<Rightarrow>
          (case parse_decimal num of
             None \<Rightarrow> Inl (Wrap (''invalid number in byte size '' @ quote t @ '': '') (NumError quote num ErrSyntax) '''')
           | Some x \<Rightarrow>
               if float_limit \<le> rnd x
               then Inl (Wrap (''invalid number in byte size '' @ quote t @ '': '') (NumError quote num ErrRange) '''')
               else Inl (New (''unknown byte unit '' @ quote u))))"
proof -
  define t where "t = TrimSpace s"
  define num where "num = takeWhile (\<lambda>c. is_digit c \<or> c = CHR ''.'') t"
  have n: "take (length num) t = num" unfolding num_def by (rule takeWhile_eq_take [symmetric])
  have tr: "TrimSpace num = num" unfolding num_def by (intro number_untrimmed takeWhile_all)
  show ?thesis
    unfolding ParseByteSize_def size_value_def Let_def t_def [symmetric] num_def [symmetric] n tr ParseFloat_def
    by (auto simp: rnd_nonneg [THEN leD] split: option.splits)
qed

section \<open>Exactness and accuracy\<close>

lemma unit_letters:
  assumes "unit_bytes w = Some m"
  shows "set w \<subseteq> set ''KMGTIB''" "1 \<le> m" "m \<le> 2 ^ 40"
proof -
  have "list_all (\<lambda>w. set w \<subseteq> set ''KMGTIB'') (map fst unit_table)" by (simp add: unit_table_def)
  moreover have "list_all (\<lambda>(w, m). 1 \<le> m \<and> m \<le> 2 ^ 40) unit_table" by (simp add: unit_table_def)
  ultimately show "set w \<subseteq> set ''KMGTIB''" "1 \<le> m" "m \<le> 2 ^ 40"
    using map_of_SomeD [OF assms [unfolded unit_bytes_def]] unfolding list_all_iff by fastforce+
qed

lemma upper_letter:
  assumes "upper c \<in> set ''KMGTIB''"
  shows "ascii c" "visible_ascii c" "\<not> (is_digit c \<or> c = CHR ''.'')"
proof -
  from assms have "(of_char (upper c) :: nat) \<in> {66, 71, 73, 75, 77, 84}" by auto
  moreover have "(of_char c :: nat) < 256" by (simp add: of_char_def)
  ultimately have "66 \<le> (of_char c :: nat) \<and> of_char c \<le> (116 :: nat)"
    by (auto simp: upper_def Let_def split: if_splits)
  moreover have "(of_char CHR ''.'' :: nat) = 46" by code_simp
  ultimately show "ascii c" "visible_ascii c" "\<not> (is_digit c \<or> c = CHR ''.'')"
    by (auto simp: ascii_def visible_ascii_def is_digit_def)
qed

lemma upper_visible: "visible_ascii c \<Longrightarrow> visible_ascii (upper c)"
  by (auto simp: upper_def visible_ascii_def Let_def)

lemma size_value_plain:
  assumes ds: "list_all is_digit ds" "ds \<noteq> []" and u: "unit_bytes (map upper u) = Some m"
  shows "size_value uni (ds @ u) = Some (of_nat (digits_val ds), m)" "TrimSpace (ds @ u) = ds @ u"
    "takeWhile (\<lambda>c. is_digit c \<or> c = CHR ''.'') (ds @ u) = ds"
proof -
  have letter: "ascii c \<and> visible_ascii c \<and> \<not> (is_digit c \<or> c = CHR ''.'')" if "c \<in> set u" for c
    using unit_letters(1) [OF u] that upper_letter [of c] by auto
  have digit: "visible_ascii c \<and> is_digit c" if "c \<in> set ds" for c
    using that ds(1) by (auto simp: list_all_iff is_digit_def visible_ascii_def)
  have all: "visible_ascii c" if "c \<in> set (ds @ u)" for c using that letter digit by auto
  show t: "TrimSpace (ds @ u) = ds @ u"
    using all [OF hd_in_set] all [OF last_in_set] by (intro TrimSpace_id) blast
  have "takeWhile (\<lambda>c. is_digit c \<or> c = CHR ''.'') u = []"
    using letter by (cases u) auto
  then show n: "takeWhile (\<lambda>c. is_digit c \<or> c = CHR ''.'') (ds @ u) = ds"
    using digit by (simp add: takeWhile_append)
  have nodot: "takeWhile (\<lambda>c. c \<noteq> CHR ''.'') ds = ds"
    using digit by (intro takeWhile_eq_all_conv [THEN iffD2]) (fastforce simp: is_digit_def)
  have d: "parse_decimal ds = Some (of_nat (digits_val ds))"
    using ds by (simp add: parse_decimal_def nodot Let_def)
  have "list_all ascii u" using letter by (simp add: list_all_iff)
  moreover have vis: "visible_ascii c" if "c \<in> set (map upper u)" for c using that letter upper_visible by auto
  have "TrimSpace (map upper u) = map upper u"
    using vis [OF hd_in_set] vis [OF last_in_set] by (intro TrimSpace_id) blast
  ultimately show "size_value uni (ds @ u) = Some (of_nat (digits_val ds), m)"
    using d u by (simp add: size_value_def t n ToUpper_ascii)
qed

lemma float_limit_large: "n \<le> 2 ^ 53 \<Longrightarrow> of_nat n < float_limit"
proof -
  assume "n \<le> 2 ^ 53"
  then have "(of_nat n :: rat) \<le> of_nat (2 ^ 53)" by (simp only: of_nat_le_iff)
  also have "\<dots> = 2 ^ 53" by simp
  also have "\<dots> < float_limit" unfolding float_limit_def by (rule power_strict_increasing) simp_all
  finally show ?thesis .
qed

text \<open>
  C33: sizes are exact where they can be. A decimal integer followed by a unit in any mix of cases
  is accepted, and when number and product do not exceed 53 bits the result is exactly the product
  with the unit: no rounding and no wrap-around.
\<close>

theorem ParseByteSize_exact:
  assumes "list_all is_digit ds" "ds \<noteq> []" "unit_bytes (map upper u) = Some m" "digits_val ds * m \<le> 2 ^ 53"
  shows "\<exists>v. ParseByteSize uni quote wide (ds @ u) = Inr v \<and> unat v = digits_val ds * m"
proof -
  let ?n = "digits_val ds"
  note sv = size_value_plain [OF assms(1-3)]
  have n: "?n \<le> 2 ^ 53" using assms(4) unit_letters(2) [OF assms(3)] by (metis le_trans mult.right_neutral mult_le_mono2)
  have r: "rnd (of_nat ?n * of_nat m) = of_nat (?n * m)" using rnd_nat [OF assms(4)] by simp
  have "(of_nat (?n * m) :: rat) < 2 ^ 64"
  proof -
    have "?n * m < 2 ^ 64" using assms(4) by simp
    then have "(of_nat (?n * m) :: rat) < of_nat (2 ^ 64)" by (simp only: of_nat_less_iff)
    then show ?thesis by simp
  qed
  then have "float_to_u64 wide (of_nat (?n * m)) = of_nat (?n * m)"
    by (simp add: float_to_u64_def del: of_nat_mult)
  moreover have "unat (of_nat (?n * m) :: u64) = ?n * m"
    using assms(4) by (simp add: unat_of_nat take_bit_nat_eq_self del: of_nat_mult)
  moreover have "ParseByteSize uni quote wide (ds @ u) = Inr (float_to_u64 wide (of_nat (?n * m)))"
    using float_limit_large [OF n] assms(2)
    by (simp only: ParseByteSize_value sv Let_def) (simp add: rnd_nat [OF n] r del: of_nat_mult)
  ultimately show ?thesis by simp
qed

text \<open>Two roundings and a truncation, on values below \<open>2 ^ 63\<close>.\<close>

lemma product_near:
  assumes x: "0 \<le> x" and m: "m \<le> 2 ^ 40"
  shows "\<bar>rnd (rnd x * of_nat m) - x * of_nat m\<bar> \<le> 1 / 2 + x * of_nat m / 2 ^ 51"
proof -
  define M y z where "M = (of_nat m :: rat)" and "y = rnd x * M" and "z = x * M"
  have M: "0 \<le> M" "M \<le> 2 ^ 40"
  proof -
    have "(of_nat m :: rat) \<le> of_nat (2 ^ 40)" using m by (simp only: of_nat_le_iff)
    then show "0 \<le> M" "M \<le> 2 ^ 40" by (simp_all add: M_def)
  qed
  have z: "0 \<le> z" and y: "0 \<le> y" using x M(1) rnd_nonneg by (simp_all add: z_def y_def)
  have "\<bar>rnd x - x\<bar> * M \<le> (x / 2 ^ 53 + 1 / 2 ^ 60) * M" by (intro mult_right_mono rnd_near x M(1))
  moreover have "\<bar>rnd x - x\<bar> * M = \<bar>y - z\<bar>" using M(1) by (simp add: y_def z_def abs_mult_pos left_diff_distrib)
  moreover have "(x / 2 ^ 53 + 1 / 2 ^ 60) * M = z / 2 ^ 53 + M / 2 ^ 60" by (simp add: z_def field_simps)
  moreover have "M / 2 ^ 60 \<le> 2 ^ 40 / 2 ^ 60" using M(2) by (rule divide_right_mono) simp
  ultimately have 1: "\<bar>y - z\<bar> \<le> z / 2 ^ 53 + 1 / 2 ^ 20" by simp
  have 2: "\<bar>rnd y - y\<bar> \<le> y / 2 ^ 53 + 1 / 2 ^ 60" by (rule rnd_near [OF y])
  have "\<bar>rnd y - z\<bar> \<le> 1 / 2 + z / 2 ^ 51" using 1 2 y z by (simp add: abs_le_iff)
  then show ?thesis by (simp add: y_def z_def M_def)
qed

lemma truncated:
  assumes "0 \<le> y" "y < 2 ^ 64"
  shows "\<bar>of_nat (unat (float_to_u64 wide y)) - y\<bar> < 1"
proof -
  have f: "0 \<le> \<lfloor>y\<rfloor>" "\<lfloor>y\<rfloor> < 2 ^ 64"
  proof -
    show "0 \<le> \<lfloor>y\<rfloor>" using assms(1) by simp
    have "y < of_int (2 ^ 64)" using assms(2) by simp
    then show "\<lfloor>y\<rfloor> < 2 ^ 64" by (simp only: floor_less_iff)
  qed
  have "unat (of_int \<lfloor>y\<rfloor> :: u64) = nat \<lfloor>y\<rfloor>"
    using f by (simp add: unsigned_of_int take_bit_int_eq_self)
  then have "of_nat (unat (float_to_u64 wide y)) = (of_int \<lfloor>y\<rfloor> :: rat)"
    using assms(2) f(1) by (simp add: float_to_u64_def)
  then show ?thesis by linarith
qed

text \<open>
  C34: what is accepted as a size, and with which value. \<^verbatim>\<open>ParseByteSize\<close> succeeds exactly when
  the trimmed text is a decimal number, with or without a fraction, followed by a known unit, and
  the number is finite as a \<^verbatim>\<open>float64\<close>; then, as long as the size it means is below
  \<open>2 ^ 63\<close>, the result is within two bytes and a relative error of \<open>2 ^ -51\<close> of it.
\<close>

theorem ParseByteSize_accepts:
  "case ParseByteSize uni quote wide s of
     Inl err \<Rightarrow> (case size_value uni s of None \<Rightarrow> True | Some (x, m) \<Rightarrow> float_limit \<le> rnd x)
   | Inr v \<Rightarrow> (case size_value uni s of None \<Rightarrow> False | Some (x, m) \<Rightarrow>
       2 ^ 63 \<le> x * of_nat m \<or> \<bar>of_nat (unat v) - x * of_nat m\<bar> \<le> 2 + x * of_nat m / 2 ^ 51)"
proof (cases "size_value uni s")
  case None
  then show ?thesis by (simp add: ParseByteSize_value Let_def split: option.splits)
next
  case (Some xm)
  obtain x m where xm: "xm = (x, m)" by fastforce
  have "parse_decimal (takeWhile (\<lambda>c. is_digit c \<or> c = CHR ''.'') (TrimSpace s)) = Some x"
    and um: "unit_bytes (TrimSpace (ToUpper uni (drop (length (takeWhile (\<lambda>c. is_digit c \<or> c = CHR ''.'') (TrimSpace s))) (TrimSpace s)))) = Some m"
    using Some xm by (auto simp: size_value_def Let_def split: option.splits)
  then have ne: "TrimSpace s \<noteq> ''''" and x: "0 \<le> x"
    by (auto simp: parse_decimal_def parse_decimal_nonneg)
  note near = product_near [OF x unit_letters(3) [OF um]]
  let ?z = "x * of_nat m" and ?y = "rnd (rnd x * of_nat m)"
  have "2 ^ 63 \<le> ?z \<or> \<bar>of_nat (unat (float_to_u64 wide ?y)) - ?z\<bar> \<le> 2 + ?z / 2 ^ 51"
  proof (cases "2 ^ 63 \<le> ?z")
    case False
    then have "?y < 2 ^ 64" using near by simp
    from truncated [OF rnd_nonneg this, of wide] near show ?thesis by (simp add: abs_le_iff) linarith
  qed simp
  then show ?thesis using Some xm ne by (simp add: ParseByteSize_value Let_def)
qed

section \<open>Witnesses\<close>

theorem ParseByteSize_exact_witness:
  "\<exists>v. ParseByteSize (\<lambda>s. s) (\<lambda>s. s) (\<lambda>_. 0) ''64GiB'' = Inr v \<and> unat v = 2 ^ 36"
proof -
  have "list_all is_digit ''64''" by code_simp
  moreover have "digits_val ''64'' = 64" by code_simp
  moreover have "map upper ''GiB'' = ''GIB''" by code_simp
  moreover have "unit_bytes ''GIB'' = Some (1024 * 1024 * 1024)" by (simp add: unit_bytes_def unit_table_def)
  ultimately show ?thesis
    using ParseByteSize_exact [of "''64''" "''GiB''" "1024 * 1024 * 1024" "\<lambda>s. s" "\<lambda>s. s" "\<lambda>_. 0"] by simp
qed

end
