(* ===== verification/Monitor_Client.thy ===== *)
theory Monitor_Client
  imports Monitor_Server Byte_Size
begin

text \<open>
  The monitor of \<^verbatim>\<open>internal/monitor/client.go\<close>: target lists, polling, the table, byte counts for
  humans and the exit code. Parameters are the HTTP client \<open>http\<close>, which gets the TLS configuration
  of an encrypted target and the URL and returns an error or a status code and a body, the check
  \<open>badurl\<close> of \<^verbatim>\<open>http.NewRequestWithContext\<close>, the JSON decoder \<open>decode\<close>, and \<open>runes\<close>, the number of
  characters by which \<^verbatim>\<open>fmt\<close> measures widths.
\<close>

section \<open>Targets\<close>

record Target =
  Address :: string
  Fingerprint :: string

fun parse_targets :: "(string \<Rightarrow> string) \<Rightarrow> string list \<Rightarrow> Target list \<Rightarrow> Target list" where
  "parse_targets uni [] targets = targets"
| "parse_targets uni (p0 # parts) targets =
     (let p = TrimSpace p0 in
      if p = '''' then parse_targets uni parts targets
      else
        (case index_byte (CHR ''@'') p of
           None \<Rightarrow> parse_targets uni parts (targets @ [\<lparr>Address = p, Fingerprint = ''''\<rparr>])
         | Some atIdx \<Rightarrow>
             (let addr = take atIdx p; fp = NormalizeFingerprint uni (drop (Suc atIdx) p)
              in parse_targets uni parts (targets @ [\<lparr>Address = addr, Fingerprint = fp\<rparr>]))))"

definition ParseTargets :: "(string \<Rightarrow> string) \<Rightarrow> string \<Rightarrow> error + Target list" where
  "ParseTargets uni raw =
     (let targets = parse_targets uni (Split (CHR '','') raw) [] in
      if length targets = 0 then Inl (New ''no valid targets specified'') else Inr targets)"

section \<open>Polling\<close>

record PollResult =
  pr_Target :: Target
  pr_Status :: "NodeStatus option"
  pr_Error :: "error option"

definition poll_error :: "Target \<Rightarrow> error \<Rightarrow> PollResult" where
  "poll_error target err = \<lparr>pr_Target = target, pr_Status = None, pr_Error = Some err\<rparr>"

definition PollTarget ::
  "(string \<Rightarrow> string) \<Rightarrow> (string \<Rightarrow> string \<Rightarrow> error + 'cert) \<Rightarrow> (string \<Rightarrow> error option) \<Rightarrow>
   ('cert tls_config option \<Rightarrow> string \<Rightarrow> error + nat \<times> string) \<Rightarrow> (string \<Rightarrow> error + NodeStatus) \<Rightarrow>
   Target \<Rightarrow> string \<Rightarrow> string \<Rightarrow> PollResult"
where
  "PollTarget uni load badurl http decode target certFile keyFile =
     (let scheme = (if Fingerprint target = '''' then ''http'' else ''https'');
          url = scheme @ ''://'' @ Address target @ ''/status'' in
      case (if scheme = ''https''
            then map_sum id Some (NewClientTLSConfig uni load certFile keyFile [Fingerprint target])
            else Inr None) of
        Inl err \<Rightarrow> poll_error target (Wrap ''client tls error: '' err '''')
      | Inr transport \<Rightarrow>
     (case badurl url of
        Some err \<Rightarrow> poll_error target err
      | None \<Rightarrow>
     (case http transport url of
        Inl err \<Rightarrow> poll_error target err
      | Inr (statusCode, body) \<Rightarrow>
          if statusCode \<noteq> 200
          then poll_error target (New (''HTTP '' @ itoa statusCode @ '': '' @ TrimSpace body))
          else
            (case decode body of
               Inl err \<Rightarrow> poll_error target (Wrap ''failed to parse status json: '' err '''')
             | Inr st \<Rightarrow> \<lparr>pr_Target = target, pr_Status = Some st, pr_Error = None\<rparr>))))"

text \<open>
  \<^verbatim>\<open>PollAll\<close> runs one goroutine per target, each writing its own slot of the result; they finish
  in some order \<open>order\<close> of the indices.
\<close>

definition PollAll :: "(Target \<Rightarrow> PollResult) \<Rightarrow> nat list \<Rightarrow> Target list \<Rightarrow> PollResult list" where
  "PollAll poll order targets =
     fold (\<lambda>idx results. results[idx := poll (targets ! idx)]) order
       (replicate (length targets) \<lparr>pr_Target = \<lparr>Address = '''', Fingerprint = ''''\<rparr>, pr_Status = None, pr_Error = None\<rparr>)"

section \<open>Byte counts\<close>

text \<open>\<^verbatim>\<open>%.1f\<close> of a non-negative \<^verbatim>\<open>float64\<close>: the exact value rounded to one decimal, ties to even.\<close>

definition fmt_f1 :: "rat \<Rightarrow> string" where
  "fmt_f1 x = (let n = nat (round_even (x * 10)) in itoa (n div 10) @ ''.'' @ itoa (n mod 10))"

function unit_loop :: "nat \<Rightarrow> int \<Rightarrow> nat \<Rightarrow> int \<times> nat" where
  "unit_loop n dv expo = (if n \<ge> 1024 then unit_loop (n div 1024) (wrap64 (dv * 1024)) (expo + 1) else (dv, expo))"
  by auto

termination
  by (relation "measure fst") auto

declare unit_loop.simps [simp del]

text \<open>\<open>None\<close> is the run-time panic of an index out of range.\<close>

definition FormatBytes :: "u64 \<Rightarrow> string option" where
  "FormatBytes b =
     (if unat b < 1024 then Some (itoa (unat b) @ ''B'')
      else
        (case unit_loop (unat b div 1024) 1024 0 of (dv, expo) \<Rightarrow>
           if expo < length ''KMGTPE''
           then Some (fmt_f1 (rnd (u64_to_float b / rnd (of_int dv))) @ [''KMGTPE'' ! expo] @ ''B'')
           else None))"

section \<open>The table and the exit code\<close>

definition pad :: "(string \<Rightarrow> nat) \<Rightarrow> nat \<Rightarrow> string \<Rightarrow> string" where
  "pad runes w s = s @ replicate (w - runes s) (CHR '' '')"

fun columns :: "(string \<Rightarrow> nat) \<Rightarrow> nat list \<Rightarrow> string list \<Rightarrow> string" where
  "columns runes (w # ws) (s # ss) = pad runes w s @ '' '' @ columns runes ws ss"
| "columns runes [] (s # ss) = s @ [nl]"
| "columns runes ws [] = [nl]"

definition widths :: "nat list" where
  "widths = [8, 9, 6, 6, 8, 4, 8, 7, 8, 10]"

definition render_row :: "(string \<Rightarrow> string) \<Rightarrow> (string \<Rightarrow> nat) \<Rightarrow> PollResult \<Rightarrow> string option" where
  "render_row upperUni runes res =
     (case pr_Error res of
        Some err \<Rightarrow>
          Some (columns runes widths
            [Address (pr_Target res), ''-'', ''DOWN'', ''-'', ''-'', ''-'', ''-'', ''-'', ''-'', ''-'', Error err])
      | None \<Rightarrow>
     (case pr_Status res of
        None \<Rightarrow> None
      | Some st \<Rightarrow>
     (case FormatBytes (BytesTotal st) of
        None \<Rightarrow> None
      | Some bytes \<Rightarrow>
          Some (columns runes widths
            [NodeID st, role_string (Role st), ToUpper upperUni (state_string (State st)), itoa (unat (FilesTotal st)),
             bytes, itoa (unat (ErrorsTotal st)), fmt_int (WaitingFiles st), fmt_int (FailedFiles st),
             fmt_int (LastOkSeconds st) @ ''s'', fmt_int (FreePercent (Disk st)) @ ''%'',
             Join (ActiveIssues st) ''; '']))))"

fun render_rows :: "(string \<Rightarrow> string) \<Rightarrow> (string \<Rightarrow> nat) \<Rightarrow> PollResult list \<Rightarrow> string option" where
  "render_rows upperUni runes [] = Some ''''"
| "render_rows upperUni runes (res # results) =
     (case render_row upperUni runes res of
        None \<Rightarrow> None
      | Some row \<Rightarrow> map_option (\<lambda>rows. row @ rows) (render_rows upperUni runes results))"

definition RenderTable :: "(string \<Rightarrow> string) \<Rightarrow> (string \<Rightarrow> nat) \<Rightarrow> PollResult list \<Rightarrow> string option" where
  "RenderTable upperUni runes results =
     map_option (\<lambda>rows. columns runes widths
       [''NODE'', ''ROLE'', ''STATE'', ''FILES'', ''DATA'', ''ERR'', ''WAITING'', ''FAILED'', ''LAST-OK'', ''DISK-FREE'', ''ISSUES''] @ rows)
       (render_rows upperUni runes results)"

text \<open>The loop of \<^verbatim>\<open>EvaluateExitCode\<close>; a result without error always carries a status.\<close>

fun exit_loop :: "PollResult list \<Rightarrow> bool \<Rightarrow> nat" where
  "exit_loop [] hasWarn = (if hasWarn then 1 else 0)"
| "exit_loop (res # results) hasWarn =
     (if pr_Error res \<noteq> None then 2
      else if State (the (pr_Status res)) = StateFail then 2
      else exit_loop results (hasWarn \<or> State (the (pr_Status res)) = StateWarn))"

definition EvaluateExitCode :: "PollResult list \<Rightarrow> nat" where
  "EvaluateExitCode results = exit_loop results False"

text \<open>
  \<^verbatim>\<open>RunMonitor\<close>: a single poll prints the table and returns the exit code; with a watch interval it
  clears the screen and prints for ever. \<open>polls targets k\<close> is the result of the \<open>k\<close>-th poll, and \<open>None\<close>
  means that there is no normal return.
\<close>

definition clear_screen :: string where
  "clear_screen = [CHR 0x1B] @ ''[H'' @ [CHR 0x1B] @ ''[2J''"

partial_function (option) watch_loop :: "(nat \<Rightarrow> string option) \<Rightarrow> nat \<Rightarrow> string \<Rightarrow> (string \<times> nat) option" where
  "watch_loop table k out =
     (case table k of None \<Rightarrow> None | Some rows \<Rightarrow> watch_loop table (Suc k) (out @ clear_screen @ rows))"

definition RunMonitor ::
  "(string \<Rightarrow> string) \<Rightarrow> (string \<Rightarrow> string) \<Rightarrow> (string \<Rightarrow> nat) \<Rightarrow> (Target list \<Rightarrow> nat \<Rightarrow> PollResult list) \<Rightarrow>
   string \<Rightarrow> int \<Rightarrow> (string \<times> nat) option"
where
  "RunMonitor uni upperUni runes polls targetsRaw watch =
     (case ParseTargets uni targetsRaw of
        Inl err \<Rightarrow> Some ('''', 2)
      | Inr targets \<Rightarrow>
          if watch \<le> 0 then
            (let results = polls targets 0
             in map_option (\<lambda>table. (table, EvaluateExitCode results)) (RenderTable upperUni runes results))
          else watch_loop (\<lambda>k. RenderTable upperUni runes (polls targets k)) 0 '''')"

section \<open>Exit codes\<close>

definition poll_state :: "PollResult \<Rightarrow> health_state" where
  "poll_state res = (if pr_Error res \<noteq> None then StateFail else State (the (pr_Status res)))"

lemma fold_max_fail: "fold max sts StateFail = StateFail"
  by (induction sts) simp_all

lemma exit_loop_worst: "exit_loop rs w = stateVal (fold max (map poll_state rs) (if w then StateWarn else StateOK))"
proof (induction rs arbitrary: w)
  case (Cons r rs)
  show ?case
  proof (cases "poll_state r")
    case StateFail
    then show ?thesis by (auto simp: poll_state_def fold_max_fail stateVal_def split: if_splits)
  qed (use Cons in \<open>auto simp: poll_state_def split: if_splits\<close>)
qed (simp add: stateVal_def)

lemma fold_updates:
  "(\<forall>i \<in> set order. i < length rs) \<Longrightarrow> i < length rs \<Longrightarrow>
   fold (\<lambda>idx results. results[idx := f idx]) order rs ! i = (if i \<in> set order then f i else rs ! i) \<and>
   length (fold (\<lambda>idx results. results[idx := f idx]) order rs) = length rs"
  by (induction order arbitrary: rs) (auto simp: nth_list_update)

lemma PollAll_map:
  assumes "set order = {..<length targets}"
  shows "PollAll poll order targets = map poll targets"
proof (rule nth_equalityI)
  let ?z = "\<lparr>pr_Target = \<lparr>Address = '''', Fingerprint = ''''\<rparr>, pr_Status = None, pr_Error = None\<rparr>"
  have f: "i < length targets \<Longrightarrow> PollAll poll order targets ! i = poll (targets ! i) \<and> length (PollAll poll order targets) = length targets" for i
    using fold_updates [of order "replicate (length targets) ?z" i "\<lambda>idx. poll (targets ! idx)"] assms
    by (simp add: PollAll_def)
  show len: "length (PollAll poll order targets) = length (map poll targets)"
  proof (cases targets)
    case Nil
    with assms show ?thesis by (simp add: PollAll_def)
  qed (use f in auto)
  show "PollAll poll order targets ! i = map poll targets ! i" if "i < length (PollAll poll order targets)" for i
    using that f len by simp
qed



text \<open>
  A target whose fingerprint is given but empty after normalisation is not refused: it is polled
  in the clear, without a certificate check, like a target that never had a fingerprint.
\<close>

theorem empty_pin_is_polled_in_clear:
  "ParseTargets uni ''10.0.0.5:9100@:'' = Inr [\<lparr>Address = ''10.0.0.5:9100'', Fingerprint = ''''\<rparr>] \<and>
   PollTarget uni load badurl http decode \<lparr>Address = ''10.0.0.5:9100'', Fingerprint = ''''\<rparr> certFile keyFile =
   PollTarget uni load badurl (\<lambda>_ _. http None ''http://10.0.0.5:9100/status'') decode
     \<lparr>Address = ''10.0.0.5:9100'', Fingerprint = ''''\<rparr> certFile keyFile"
proof -
  have "Split (CHR '','') ''10.0.0.5:9100@:'' = [''10.0.0.5:9100@:'']" by code_simp
  moreover have "TrimSpace ''10.0.0.5:9100@:'' = ''10.0.0.5:9100@:''" by code_simp
  moreover have "index_byte (CHR ''@'') ''10.0.0.5:9100@:'' = Some 13" by code_simp
  moreover have "NormalizeFingerprint uni '':'' = ''''"
    by (simp add: NormalizeFingerprint_def TrimSpace_id ToLower_def)
  moreover have "take 13 ''10.0.0.5:9100@:'' = ''10.0.0.5:9100''" "drop 14 ''10.0.0.5:9100@:'' = '':''" by code_simp+
  ultimately have "ParseTargets uni ''10.0.0.5:9100@:'' = Inr [\<lparr>Address = ''10.0.0.5:9100'', Fingerprint = ''''\<rparr>]"
    by (simp add: ParseTargets_def Let_def)
  then show ?thesis by (simp add: PollTarget_def Let_def split: option.split)
qed

section \<open>Byte counts for humans\<close>

lemma unit_loop_spec:
  assumes "0 < b div 1024 ^ Suc e" "b < 1024 ^ 7" "e < 6"
  obtains f where "unit_loop (b div 1024 ^ Suc e) (1024 ^ Suc e) e = (1024 ^ Suc f, f)" "f < 6"
    "1024 ^ Suc f \<le> b" "b < 1024 ^ Suc (Suc f)"
  using assms
proof (induction "6 - e" arbitrary: e thesis rule: less_induct)
  case less
  let ?n = "b div 1024 ^ Suc e"
  show ?case
  proof (cases "1024 \<le> ?n")
    case False
    then have "unit_loop ?n (1024 ^ Suc e) e = (1024 ^ Suc e, e)" by (subst unit_loop.simps) simp
    moreover have "1024 ^ Suc e \<le> b"
    proof (rule ccontr)
      assume "\<not> 1024 ^ Suc e \<le> b"
      then have "?n = 0" by simp
      with less.prems(2) show False by simp
    qed
    moreover have "b < 1024 ^ Suc (Suc e)"
    proof -
      have "?n < 1024" using False by simp
      then have "b < 1024 * 1024 ^ Suc e" by (subst (asm) div_less_iff_less_mult) simp_all
      then show ?thesis by simp
    qed
    ultimately show ?thesis using less.prems(1,4) by blast
  next
    case True
    have "1024 ^ Suc (Suc e) \<le> b"
    proof -
      have "1024 * 1024 ^ Suc e \<le> ?n * 1024 ^ Suc e" using True by (intro mult_le_mono1)
      also have "\<dots> \<le> b" by (rule div_times_less_eq_dividend)
      finally show ?thesis by simp
    qed
    then have "(1024 :: nat) ^ Suc (Suc e) < 1024 ^ 7" using less.prems(3) by simp
    then have "Suc (Suc e) < 7" by (rule power_less_imp_less_exp [rotated]) simp
    then have e: "e < 5" by simp
    have "(1024 :: int) ^ Suc e \<le> 1024 ^ 5" using e by (intro power_increasing) auto
    then have "wrap64 (1024 ^ Suc e * 1024) = 1024 ^ Suc e * 1024"
      unfolding wrap64_def by (simp add: mod_pos_pos_trivial)
    then have step: "unit_loop ?n (1024 ^ Suc e) e = unit_loop (b div 1024 ^ Suc (Suc e)) (1024 ^ Suc (Suc e)) (Suc e)"
      using True by (subst unit_loop.simps) (simp add: div_mult2_eq [symmetric] mult.commute)
    have "0 < b div 1024 ^ Suc (Suc e)" using \<open>1024 ^ Suc (Suc e) \<le> b\<close> by (simp add: div_greater_zero_iff)
    show ?thesis
    proof (rule less.hyps [of "Suc e"])
      show "6 - Suc e < 6 - e" "Suc e < 6" using e by simp_all
      show "thesis" if "unit_loop (b div 1024 ^ Suc (Suc e)) (1024 ^ Suc (Suc e)) (Suc e) = (1024 ^ Suc f, f)" "f < 6"
        "1024 ^ Suc f \<le> b" "b < 1024 ^ Suc (Suc f)" for f
        using less.prems(1) [of f] that unfolding step by blast
    qed fact+
  qed
qed

lemma f1_accurate:
  assumes b: "D \<le> b" "b < 1024 * D" and D: "1 \<le> D" "rnd D = D"
  shows "\<bar>of_int (round_even (rnd (rnd b / rnd D) * 10)) / 10 - b / D\<bar> \<le> 1 / 20 + 1 / 2 ^ 40" "0 \<le> round_even (rnd (rnd b / rnd D) * 10)"
proof -
  define x y where "x = b / D" and "y = rnd b / D"
  have x: "0 \<le> x" "x \<le> 1024" using b D by (simp_all add: x_def field_simps)
  have "\<bar>rnd b - b\<bar> \<le> b / 2 ^ 53 + 1 / 2 ^ 60" using b D by (intro rnd_near) simp
  then have "\<bar>rnd b - b\<bar> / D \<le> (b / 2 ^ 53 + 1 / 2 ^ 60) / D" using D by (intro divide_right_mono) simp_all
  moreover have "\<bar>rnd b - b\<bar> / D = \<bar>y - x\<bar>" using D by (simp add: x_def y_def abs_divide flip: diff_divide_distrib)
  moreover have "(b / 2 ^ 53 + 1 / 2 ^ 60) / D = x / 2 ^ 53 + 1 / 2 ^ 60 / D" by (simp add: x_def add_divide_distrib)
  moreover have "1 / 2 ^ 60 / D \<le> 1 / 2 ^ 60" using D(1) by (simp add: divide_le_eq)
  moreover have "x / 2 ^ 53 \<le> 1024 / 2 ^ 53" using x by (intro divide_right_mono) simp_all
  ultimately have 1: "\<bar>y - x\<bar> \<le> 1024 / 2 ^ 53 + 1 / 2 ^ 60" by linarith
  then have "\<bar>y - x\<bar> \<le> 1 / 2 ^ 42" by simp
  moreover have y0: "0 \<le> y" using D rnd_nonneg by (simp add: y_def)
  moreover have "\<bar>rnd y - y\<bar> \<le> 1 / 2 ^ 42"
  proof -
    have "(1024 / 2 ^ 53 + 1 / 2 ^ 60 :: rat) \<le> 1" by simp
    with 1 x have "y \<le> 1025" by linarith
    with rnd_near [OF y0] show ?thesis by simp
  qed
  moreover have "(1 :: rat) / 2 ^ 42 + 1 / 2 ^ 42 \<le> 1 / 2 ^ 40" by simp
  ultimately have near: "\<bar>rnd y - x\<bar> \<le> 1 / 2 ^ 40" by linarith
  have "\<bar>of_int (round_even (rnd y * 10)) - rnd y * 10\<bar> \<le> 1 / 2" by (rule round_even_error)
  with near have "\<bar>of_int (round_even (rnd y * 10)) / 10 - x\<bar> \<le> 1 / 20 + 1 / 2 ^ 40" by linarith
  then show "\<bar>of_int (round_even (rnd (rnd b / rnd D) * 10)) / 10 - b / D\<bar> \<le> 1 / 20 + 1 / 2 ^ 40"
    by (simp add: x_def y_def D(2))
  have "round_even 0 \<le> round_even (rnd (rnd b / rnd D) * 10)" using rnd_nonneg by (intro round_even_mono) simp
  then show "0 \<le> round_even (rnd (rnd b / rnd D) * 10)" using round_even_int [of 0] by simp
qed

text \<open>
  C35: \<^verbatim>\<open>FormatBytes\<close> is total and accurate for every 64-bit count: the index into the unit letters
  is never out of range and the divisor never overflows; the unit is the largest one that is not
  above the count, and the number printed is within rounding to one decimal of the exact quotient.
\<close>

theorem FormatBytes_accurate:
  "if unat b < 1024 then FormatBytes b = Some (itoa (unat b) @ ''B'')
   else \<exists>e z. e < 6 \<and> 1024 ^ Suc e \<le> unat b \<and> unat b < 1024 ^ Suc (Suc e) \<and>
     FormatBytes b = Some (itoa (z div 10) @ ''.'' @ itoa (z mod 10) @ [''KMGTPE'' ! e] @ ''B'') \<and>
     \<bar>of_nat z / 10 - of_nat (unat b) / 1024 ^ Suc e\<bar> \<le> (1 / 20 + 1 / 2 ^ 40 :: rat)"
proof (cases "unat b < 1024")
  case True
  then show ?thesis by (simp add: FormatBytes_def)
next
  case False
  have "unat b < 1024 ^ 7"
  proof -
    have "unat b < 2 ^ 64" using unsigned_less [of b] by simp
    then show ?thesis by simp
  qed
  moreover have "0 < unat b div 1024 ^ Suc 0" using False by (simp add: div_greater_zero_iff)
  ultimately obtain e where e: "unit_loop (unat b div 1024 ^ Suc 0) (1024 ^ Suc 0) 0 = (1024 ^ Suc e, e)" "e < 6"
      "1024 ^ Suc e \<le> unat b" "unat b < 1024 ^ Suc (Suc e)"
    using unit_loop_spec [of "unat b" 0] by auto
  define B D where "B = (of_nat (unat b) :: rat)" and "D = (1024 ^ Suc e :: rat)"
  have BD: "D \<le> B" "B < 1024 * D" "1 \<le> D"
  proof -
    have "(of_nat (1024 ^ Suc e) :: rat) \<le> of_nat (unat b)" using e(3) by (simp only: of_nat_le_iff)
    then show "D \<le> B" unfolding B_def D_def by (simp only: of_nat_power of_nat_numeral)
    have "(of_nat (unat b) :: rat) < of_nat (1024 ^ Suc (Suc e))" using e(4) by (simp only: of_nat_less_iff)
    then show "B < 1024 * D" unfolding B_def D_def by (simp only: of_nat_power of_nat_numeral power_Suc of_nat_mult)
    show "1 \<le> D" unfolding D_def by (rule one_le_power) simp
  qed
  have D2: "D = 2 powi int (10 * Suc e)" unfolding D_def power_int_of_nat power_mult by simp
  have "rnd D = D" unfolding D2 by (rule rnd_power) simp
  note acc = f1_accurate [OF BD this]
  define z where "z = nat (round_even (rnd (rnd B / rnd D) * 10))"
  have fb: "FormatBytes b = Some (fmt_f1 (rnd (rnd B / rnd D)) @ [''KMGTPE'' ! e] @ ''B'')"
    using e(1,2) False by (simp add: FormatBytes_def u64_to_float_def B_def D_def)
  have "(of_nat z :: rat) = of_int (round_even (rnd (rnd B / rnd D) * 10))" using acc(2) by (simp add: z_def)
  with acc(1) have "\<bar>of_nat z / 10 - B / D\<bar> \<le> 1 / 20 + 1 / 2 ^ 40" by simp
  moreover have "fmt_f1 (rnd (rnd B / rnd D)) = itoa (z div 10) @ ''.'' @ itoa (z mod 10)"
    by (simp add: fmt_f1_def z_def Let_def)
  ultimately show ?thesis using False e(2-4) fb unfolding B_def D_def by (intro if_not_P [THEN iffD2]) auto
qed

section \<open>Witnesses\<close>

definition two_targets :: "Target list" where
  "two_targets = [\<lparr>Address = ''a'', Fingerprint = ''''\<rparr>, \<lparr>Address = ''b'', Fingerprint = ''''\<rparr>]"



end
