(* ===== verification/Tls_Certs.thy ===== *)
theory Tls_Certs
  imports Tls_Verify Os_Laws Go_Fmt
begin

text \<open>
  Key generation, \<^verbatim>\<open>internal/tlsutil/certs.go\<close>: the certificate template, the two PEM files and the
  fingerprint of a certificate file. The cryptographic calls and the PEM codec are parameters:
  \<open>genkey\<close>, \<open>serial\<close> and \<open>marshal\<close> give the results of key generation, of drawing the serial number and of
  encoding the key, \<open>create\<close> signs a template, \<open>encode\<close> and \<open>decode\<close> are \<^verbatim>\<open>pem.Encode\<close> and \<^verbatim>\<open>pem.Decode\<close>.
\<close>

section \<open>Files\<close>

text \<open>\<^verbatim>\<open>os.OpenFile\<close> with \<^verbatim>\<open>O_WRONLY|O_CREATE|O_TRUNC\<close>, and \<^verbatim>\<open>os.ReadFile\<close>.\<close>

definition OpenTrunc :: "os \<Rightarrow> path \<Rightarrow> (error + nat) \<times> os" where
  "OpenTrunc s p =
     (case fault s of
        (Some e, s1) \<Rightarrow> (Inl (PathError ''open'' p e), s1)
      | (None, s1) \<Rightarrow>
          if is_dir s1 p then (Inl (PathError ''open'' p EISDIR), s1)
          else if \<not> is_dir s1 (butlast p) then (Inl (PathError ''open'' p ENOENT), s1)
          else
            (let v = o_fs s1 in
             case ent s1 p of
               Some (Ino i) \<Rightarrow>
                 (Inr i, put_fs s1 (v\<lparr>v_inodes := (v_inodes v)(i := (v_inodes v i)\<lparr>i_data := [], i_mtime := o_clock s1\<rparr>)\<rparr>))
             | _ \<Rightarrow>
                 (let i = o_next s1; nd = \<lparr>i_data = [], i_synced = [], i_mtime = o_clock s1\<rparr>
                  in (Inr i, put_fs (s1\<lparr>o_next := Suc i\<rparr>)
                        (v\<lparr>v_ents := AList.update p (Ino i) (v_ents v), v_inodes := (v_inodes v)(i := nd)\<rparr>)))))"

definition ReadFile :: "os \<Rightarrow> path \<Rightarrow> (error + byte list) \<times> os" where
  "ReadFile s p =
     (case fault s of
        (Some e, s1) \<Rightarrow> (Inl (PathError ''open'' p e), s1)
      | (None, s1) \<Rightarrow>
          (case ent s1 p of
             None \<Rightarrow> (Inl (PathError ''open'' p ENOENT), s1)
           | Some Dir \<Rightarrow> (Inl (PathError ''read'' p EISDIR), s1)
           | Some (Ino i) \<Rightarrow> (Inr (i_data (inode_of s1 i)), s1)))"

section \<open>Certificates\<close>

datatype key_usage = DigitalSignature | KeyEncipherment
datatype ext_key_usage = ServerAuth | ClientAuthUsage

record certificate =
  SerialNumber :: int
  CommonName :: string
  Organization :: "string list"
  NotBefore :: int
  NotAfter :: int
  KeyUsage :: "key_usage list"
  ExtKeyUsage :: "ext_key_usage list"
  BasicConstraintsValid :: bool
  IsCA :: bool
  DNSNames :: "string list"
  IPAddresses :: "string list"

definition cert_template :: "string \<Rightarrow> int \<Rightarrow> int \<Rightarrow> int \<Rightarrow> certificate" where
  "cert_template name days now serialNumber =
     (let notBefore = now - 3600 * second; notAfter = notBefore + wrap64 (wrap64 (days * 24) * (3600 * second)) in
      \<lparr>SerialNumber = serialNumber, CommonName = name, Organization = [''xport''],
       NotBefore = notBefore, NotAfter = notAfter, KeyUsage = [DigitalSignature, KeyEncipherment],
       ExtKeyUsage = [ServerAuth, ClientAuthUsage], BasicConstraintsValid = True, IsCA = False,
       DNSNames = [''localhost'', name], IPAddresses = [''127.0.0.1'', ''::1'']\<rparr>)"

definition GenerateCert ::
  "error + 'key \<Rightarrow> error + int \<Rightarrow> (certificate \<Rightarrow> 'key \<Rightarrow> error + byte list) \<Rightarrow> ('key \<Rightarrow> error + byte list) \<Rightarrow>
   (string \<Rightarrow> byte list \<Rightarrow> byte list) \<Rightarrow> int \<Rightarrow> os \<Rightarrow> string \<Rightarrow> int \<Rightarrow> path \<Rightarrow> path \<Rightarrow> (error + string) \<times> os"
where
  "GenerateCert genkey serial create marshal encode now s name days0 certPath keyPath =
     (let days = (if days0 \<le> 0 then 3650 else days0) in
      case genkey of
        Inl err \<Rightarrow> (Inl (Wrap ''failed to generate ecdsa key: '' err ''''), s)
      | Inr privKey \<Rightarrow>
     (case serial of
        Inl err \<Rightarrow> (Inl (Wrap ''failed to generate serial number: '' err ''''), s)
      | Inr serialNumber \<Rightarrow>
     (case create (cert_template name days now serialNumber) privKey of
        Inl err \<Rightarrow> (Inl (Wrap ''failed to create certificate: '' err ''''), s)
      | Inr derBytes \<Rightarrow>
     (case OpenTrunc s certPath of
        (Inl err, s1) \<Rightarrow> (Inl (Wrap (''failed to open '' @ path_string certPath @ '' for writing: '') err ''''), s1)
      | (Inr certOut, s1) \<Rightarrow>
     (case File_Write certOut s1 (encode ''CERTIFICATE'' derBytes) of
        (_, Some err, s2) \<Rightarrow> (Inl (Wrap ''failed to write certificate pem: '' err ''''), snd (File_Close s2))
      | (_, None, s2) \<Rightarrow>
     (case marshal privKey of
        Inl err \<Rightarrow> (Inl (Wrap ''failed to marshal ecdsa private key: '' err ''''), snd (File_Close s2))
      | Inr keyBytes \<Rightarrow>
     (case OpenTrunc s2 keyPath of
        (Inl err, s3) \<Rightarrow>
          (Inl (Wrap (''failed to open '' @ path_string keyPath @ '' for writing: '') err ''''), snd (File_Close s3))
      | (Inr keyOut, s3) \<Rightarrow>
     (case File_Write keyOut s3 (encode ''EC PRIVATE KEY'' keyBytes) of
        (_, Some err, s4) \<Rightarrow>
          (Inl (Wrap ''failed to write private key pem: '' err ''''), snd (File_Close (snd (File_Close s4))))
      | (_, None, s4) \<Rightarrow> (Inr (FingerprintDER derBytes), snd (File_Close (snd (File_Close s4))))))))))))"

definition LoadCertFingerprint :: "(byte list \<Rightarrow> (string \<times> byte list) option) \<Rightarrow> os \<Rightarrow> path \<Rightarrow> (error + string) \<times> os" where
  "LoadCertFingerprint decode s certPath =
     (case ReadFile s certPath of
        (Inl err, s1) \<Rightarrow> (Inl err, s1)
      | (Inr data, s1) \<Rightarrow>
          (case decode data of
             None \<Rightarrow> (Inl (New (''failed to parse certificate pem block from '' @ path_string certPath)), s1)
           | Some (ty, bytes) \<Rightarrow>
               if ty \<noteq> ''CERTIFICATE''
               then (Inl (New (''failed to parse certificate pem block from '' @ path_string certPath)), s1)
               else (Inr (FingerprintDER bytes), s1)))"

section \<open>Contents of the two files\<close>

lemma OpenTrunc_ok:
  assumes "OpenTrunc s p = (Inr i, s')"
  shows "ent s' = (ent s)(p \<mapsto> Ino i) \<and> i_data (inode_of s' i) = [] \<and>
    (\<forall>j. j \<noteq> i \<longrightarrow> inode_of s' j = inode_of s j) \<and> (ent s p = Some (Ino i) \<or> ent s p = None \<and> i = o_next s)"
proof -
  obtain s1 where f: "fault s = (None, s1)" using assms by (auto simp: OpenTrunc_def split: prod.splits option.splits)
  note same = fault_same [OF f]
  have e: "ent s1 = ent s" "inode_of s1 = inode_of s" "o_next s1 = o_next s"
    using same by (simp_all add: ent_def inode_of_def fun_eq_iff)
  show ?thesis
  proof (cases "ent s1 p")
    case None
    then have "s' = put_fs (s1\<lparr>o_next := Suc i\<rparr>) ((o_fs s1)\<lparr>v_ents := AList.update p (Ino i) (v_ents (o_fs s1)),
        v_inodes := (v_inodes (o_fs s1))(i := \<lparr>i_data = [], i_synced = [], i_mtime = o_clock s1\<rparr>)\<rparr>)" "i = o_next s"
      using assms f e by (auto simp: OpenTrunc_def Let_def split: if_splits)
    with None e show ?thesis
      by (simp add: put_fs_def ent_def inode_of_def update_conv fun_eq_iff)
  next
    case (Some en)
    then obtain j where j: "en = Ino j" using assms f by (cases en) (auto simp: OpenTrunc_def is_dir_def split: if_splits)
    then have "i = j" "s' = put_fs s1 ((o_fs s1)\<lparr>v_inodes := (v_inodes (o_fs s1))(i := (v_inodes (o_fs s1) i)\<lparr>i_data := [], i_mtime := o_clock s1\<rparr>)\<rparr>)"
      using assms f Some by (auto simp: OpenTrunc_def Let_def split: if_splits)
    with Some j e show ?thesis
      by (auto simp: put_fs_def ent_def inode_of_def fun_eq_iff)
  qed
qed

lemma File_Write_whole:
  assumes "File_Write i s b = (n, None, s')"
  shows "ent s' = ent s \<and> o_next s' = o_next s \<and> i_data (inode_of s' i) = i_data (inode_of s i) @ b \<and>
    (\<forall>j. j \<noteq> i \<longrightarrow> inode_of s' j = inode_of s j)"
  using assms
  by (auto simp: File_Write_def ent_def inode_of_def fun_eq_iff dest!: fault_same split: prod.splits option.splits if_splits)

lemma File_Close_keeps: "ent (snd (File_Close s)) = ent s \<and> inode_of (snd (File_Close s)) = inode_of s"
  by (auto simp: File_Close_def ent_def inode_of_def fun_eq_iff dest!: fault_same split: prod.splits option.splits)

lemma GenerateCert_files:
  assumes gen: "GenerateCert genkey serial create marshal encode now s name days certPath keyPath = (Inr fp, s')"
    and fresh: "ent s certPath = None" "ent s keyPath = None" "certPath \<noteq> keyPath"
  obtains der kb where "fp = FingerprintDER der" "content s' certPath = Some (encode ''CERTIFICATE'' der)"
    "content s' keyPath = Some (encode ''EC PRIVATE KEY'' kb)"
    "\<And>q. q \<noteq> certPath \<Longrightarrow> q \<noteq> keyPath \<Longrightarrow> ent s' q = ent s q"
proof -
  obtain k sn where k: "genkey = Inr k" "serial = Inr sn"
    using gen by (auto simp: GenerateCert_def Let_def split: sum.splits)
  obtain der where der: "create (cert_template name (if days \<le> 0 then 3650 else days) now sn) k = Inr der"
    using gen k by (auto simp: GenerateCert_def Let_def split: sum.splits)
  obtain ci s1 where 1: "OpenTrunc s certPath = (Inr ci, s1)"
    using gen k der by (auto simp: GenerateCert_def Let_def split: sum.splits prod.splits)
  obtain n2 s2 where 2: "File_Write ci s1 (encode ''CERTIFICATE'' der) = (n2, None, s2)"
    using gen k der 1 by (auto simp: GenerateCert_def Let_def split: sum.splits prod.splits option.splits)
  obtain kb where kb: "marshal k = Inr kb"
    using gen k der 1 2 by (auto simp: GenerateCert_def Let_def split: sum.splits)
  obtain ki s3 where 3: "OpenTrunc s2 keyPath = (Inr ki, s3)"
    using gen k der 1 2 kb by (auto simp: GenerateCert_def Let_def split: sum.splits prod.splits)
  obtain n4 s4 where 4: "File_Write ki s3 (encode ''EC PRIVATE KEY'' kb) = (n4, None, s4)"
    using gen k der 1 2 kb 3 by (auto simp: GenerateCert_def Let_def split: sum.splits prod.splits option.splits)
  have res: "fp = FingerprintDER der" "s' = snd (File_Close (snd (File_Close s4)))"
    using gen k der 1 2 kb 3 4 by (auto simp: GenerateCert_def Let_def)
  note o1 = OpenTrunc_ok [OF 1] and w2 = File_Write_whole [OF 2] and o3 = OpenTrunc_ok [OF 3] and w4 = File_Write_whole [OF 4]
  have "o_next s1 = Suc ci"
  proof -
    obtain sf where f: "fault s = (None, sf)" using 1 by (auto simp: OpenTrunc_def split: prod.splits option.splits)
    then have "ent sf certPath = None" using fault_same [OF f] fresh by (simp add: ent_def)
    with 1 f show ?thesis by (auto simp: OpenTrunc_def put_fs_def Let_def split: if_splits)
  qed
  with o1 w2 o3 fresh have ne: "ki \<noteq> ci" by auto
  have "ent s' = ent s4" "inode_of s' = inode_of s4" using res(2) File_Close_keeps by metis+
  with o1 w2 o3 w4 ne fresh(3) show thesis
    by (intro that [OF res(1)]) (simp_all add: content_def)
qed

section \<open>Properties\<close>


text \<open>
  The validity period. For up to 106751 days the certificate expires exactly that many days
  after its start, which lies one hour in the past; one day more overflows the duration and the
  certificate expires long before it starts.
\<close>

theorem validity_period:
  fixes days :: int
  assumes "0 < days" "days \<le> 106752"
  shows "NotBefore (cert_template name days now sn) = now - 3600 * second \<and>
    (if days \<le> 106751
     then NotAfter (cert_template name days now sn) = NotBefore (cert_template name days now sn) + days * (86400 * second)
     else NotAfter (cert_template name days now sn) < NotBefore (cert_template name days now sn))"
proof -
  have "wrap64 (days * 24) = days * 24" using assms by (simp add: wrap64_def mod_pos_pos_trivial)
  moreover have "wrap64 (days * 24 * (3600 * second)) = days * (86400 * second)" if "days \<le> 106751"
    using assms that by (simp add: wrap64_def second_def mod_pos_pos_trivial)
  moreover have "wrap64 (106752 * 24 * (3600 * second)) < 0" by (simp add: wrap64_def second_def)
  moreover have "days = 106752" if "\<not> days \<le> 106751" using assms(2) that by simp
  ultimately show ?thesis by (auto simp: cert_template_def Let_def)
qed

section \<open>Witnesses\<close>

definition key_os :: os where
  "key_os = \<lparr>o_fs = \<lparr>v_ents = [([''keys''], Dir)], v_disk = [], v_inodes = (\<lambda>_. \<lparr>i_data = [], i_synced = [], i_mtime = 0\<rparr>)\<rparr>,
     o_hist = [], o_next = 0, o_faults = [], o_space = None, o_clock = 0, o_entropy = (\<lambda>_. []), o_draws = 0\<rparr>"


theorem validity_period_witness:
  "NotAfter (cert_template ''n'' 3650 0 1) = NotBefore (cert_template ''n'' 3650 0 1) + 3650 * (86400 * second) \<and>
   NotAfter (cert_template ''n'' 106752 0 1) < NotBefore (cert_template ''n'' 106752 0 1)"
  using validity_period [of 3650 "''n''" 0 1] validity_period [of 106752 "''n''" 0 1] by simp

end
