(* ===== verification/Cli.thy ===== *)
theory Cli
  imports Sender_Run Receiver_Server Monitor_Client Tls_Certs
begin

text \<open>
  The command line, \<^verbatim>\<open>cmd/xport/main.go\<close>: dispatch on the subcommand, its flags and required flags,
  and the order in which a daemon creates and starts its parts. A subcommand ends with an exit code,
  or it leaves a running daemon, whose further life is the subject of the theories
  \<^verbatim>\<open>Sender_Run\<close> and \<^verbatim>\<open>Receiver_Server\<close>. Standard output is part of the result; messages on
  standard error are not modelled. What the process finds in its environment is the record \<open>env\<close>:
  the host name, the clock, how the system resolves a path, the outcome of binding an address, and the
  parameters of the other theories.
\<close>

section \<open>The environment\<close>

record ('cert, 'key) env =
  v_hostname :: "error + string"
  v_now :: int
  v_path :: "string \<Rightarrow> path"
  v_listen :: "string \<Rightarrow> error option"
  v_load :: "string \<Rightarrow> string \<Rightarrow> error + 'cert"
  v_int :: "string \<Rightarrow> int option"
  v_duration :: "string \<Rightarrow> int option"
  v_lower :: "string \<Rightarrow> string"
  v_upper :: "string \<Rightarrow> string"
  v_quote :: "string \<Rightarrow> string"
  v_wide :: "rat \<Rightarrow> u64"
  v_runes :: "string \<Rightarrow> nat"
  v_genkey :: "error + 'key"
  v_serial :: "error + int"
  v_create :: "certificate \<Rightarrow> 'key \<Rightarrow> error + byte list"
  v_marshal :: "'key \<Rightarrow> error + byte list"
  v_pem :: "string \<Rightarrow> byte list \<Rightarrow> byte list"
  v_badurl :: "string \<Rightarrow> error option"
  v_http :: "nat \<Rightarrow> 'cert tls_config option \<Rightarrow> string \<Rightarrow> error + nat \<times> string"
  v_decode :: "string \<Rightarrow> error + NodeStatus"
  v_order :: "nat \<Rightarrow> nat list"

definition defaultHostname :: "('cert, 'key) env \<Rightarrow> string" where
  "defaultHostname v = (case v_hostname v of Inl err \<Rightarrow> ''node'' | Inr h \<Rightarrow> if h = '''' then ''node'' else h)"

section \<open>Flags\<close>

text \<open>
  \<^verbatim>\<open>flag.FlagSet.Parse\<close> for the flags the program uses, all of which take a value. The value may
  follow after an equals sign or as the next argument; parsing ends at the first argument that is no
  flag. With \<^verbatim>\<open>ExitOnError\<close> the process exits with status 0 after a request for help and with status
  2 after an error. The conversions of \<^verbatim>\<open>strconv.ParseInt\<close> and \<^verbatim>\<open>time.ParseDuration\<close> are in \<open>env\<close>.
\<close>

datatype flag = FStr string | FInt int | FDur int

fun same_kind :: "flag \<Rightarrow> flag \<Rightarrow> bool" where
  "same_kind (FStr _) (FStr _) = True"
| "same_kind (FInt _) (FInt _) = True"
| "same_kind (FDur _) (FDur _) = True"
| "same_kind _ _ = False"

fun SetValue :: "('cert, 'key) env \<Rightarrow> flag \<Rightarrow> string \<Rightarrow> flag option" where
  "SetValue v (FStr _) val = Some (FStr val)"
| "SetValue v (FInt _) val = map_option FInt (v_int v val)"
| "SetValue v (FDur _) val = map_option FDur (v_duration v val)"

definition split_flag :: "string \<Rightarrow> string \<times> string option" where
  "split_flag name =
     (case index_byte (CHR ''='') name of
        None \<Rightarrow> (name, None)
      | Some i \<Rightarrow> (take i name, Some (drop (Suc i) name)))"

definition flag_name :: "string \<Rightarrow> string option" where
  "flag_name s =
     (if length s < 2 \<or> hd s \<noteq> CHR ''-'' then None
      else Some (drop (if s ! 1 = CHR ''-'' then 2 else 1) s))"

text \<open>The flags are an association list of names and values, at first the defaults.\<close>

fun Parse :: "('cert, 'key) env \<Rightarrow> (string \<times> flag) list \<Rightarrow> string list \<Rightarrow> nat + (string \<times> flag) list" where
  "Parse v flags [] = Inr flags"
| "Parse v flags (s # args) =
     (case flag_name s of
        None \<Rightarrow> Inr flags
      | Some raw \<Rightarrow>
          if s = ''--'' then Inr flags
          else if raw = '''' \<or> hd raw = CHR ''-'' \<or> hd raw = CHR ''='' then Inl 2
          else
            (case split_flag raw of (name, inline) \<Rightarrow>
              (case map_of flags name of
                 None \<Rightarrow> Inl (if name = ''help'' \<or> name = ''h'' then 0 else 2)
               | Some old \<Rightarrow>
                   (case inline of
                      Some val \<Rightarrow>
                        (case SetValue v old val of
                           None \<Rightarrow> Inl 2
                         | Some new \<Rightarrow> Parse v (AList.update name new flags) args)
                    | None \<Rightarrow>
                        (case args of
                           [] \<Rightarrow> Inl 2
                         | val # args1 \<Rightarrow>
                             (case SetValue v old val of
                                None \<Rightarrow> Inl 2
                              | Some new \<Rightarrow> Parse v (AList.update name new flags) args1))))))"

definition str_flag :: "(string \<times> flag) list \<Rightarrow> string \<Rightarrow> string" where
  "str_flag flags n = (case map_of flags n of Some (FStr x) \<Rightarrow> x | _ \<Rightarrow> '''')"

definition int_flag :: "(string \<times> flag) list \<Rightarrow> string \<Rightarrow> int" where
  "int_flag flags n = (case map_of flags n of Some (FInt x) \<Rightarrow> x | _ \<Rightarrow> 0)"

definition dur_flag :: "(string \<times> flag) list \<Rightarrow> string \<Rightarrow> int" where
  "dur_flag flags n = (case map_of flags n of Some (FDur x) \<Rightarrow> x | _ \<Rightarrow> 0)"

section \<open>Subcommands\<close>

text \<open>\<^verbatim>\<open>log.Fatalf\<close> exits with status 1; a normal return of \<^verbatim>\<open>main\<close> is status 0.\<close>

datatype 'd outcome = Exit nat string | Running_daemon 'd

record 'cert send_daemon =
  sd_status :: "'cert listener"
  sd_pool :: ClientPool
  sd_sys :: ssys

record 'cert recv_daemon =
  rd_status :: "'cert listener"
  rd_server :: server
  rd_tls :: "'cert tls_config"
  rd_sys :: lsys

definition mkdir_all :: "('cert, 'key) env \<Rightarrow> os \<Rightarrow> string \<Rightarrow> error option \<times> os" where
  "mkdir_all v s dir =
     (if dir = '''' then (Some (PathError ''mkdir'' [] ENOENT), s) else MkdirAll s (v_path v dir))"

definition keygen_flags :: "(string \<times> flag) list" where
  "keygen_flags = [(''name'', FStr ''node''), (''days'', FInt 3650)]"

definition runKeygen :: "('cert, 'key) env \<Rightarrow> os \<Rightarrow> string list \<Rightarrow> 'd outcome \<times> os" where
  "runKeygen v s args =
     (case Parse v keygen_flags args of
        Inl code \<Rightarrow> (Exit code '''', s)
      | Inr fs \<Rightarrow>
          (let name = str_flag fs ''name''; certFile = name @ ''.crt''; keyFile = name @ ''.key'' in
           case GenerateCert (v_genkey v) (v_serial v) (v_create v) (v_marshal v) (v_pem v) (v_now v) s
                  name (int_flag fs ''days'') (v_path v certFile) (v_path v keyFile) of
             (Inl err, s1) \<Rightarrow> (Exit 1 '''', s1)
           | (Inr fp, s1) \<Rightarrow>
               (Exit 0 (''Generated '' @ certFile @ '' and '' @ keyFile @ [nl] @
                        ''Certificate SHA-256 Fingerprint: '' @ fp @ [nl]), s1)))"

definition send_flags :: "('cert, 'key) env \<Rightarrow> (string \<times> flag) list" where
  "send_flags v =
     [(''dir'', FStr ''outbox''), (''addr'', FStr ''''), (''cert'', FStr ''''), (''key'', FStr ''''), (''peer-fp'', FStr ''''),
      (''parallel'', FInt 1), (''after'', FStr ''archive''), (''scan'', FDur second), (''max-attempts'', FInt 10),
      (''name'', FStr (defaultHostname v)), (''status'', FStr ''127.0.0.1:9100''), (''status-peer-fp'', FStr ''''),
      (''stall-after'', FDur (2 * minute)), (''disk-warn-pct'', FInt 15), (''disk-fail-pct'', FInt 5)]"

definition runSend :: "('cert, 'key) env \<Rightarrow> os \<Rightarrow> string list \<Rightarrow> 'cert send_daemon outcome \<times> os" where
  "runSend v s args =
     (case Parse v (send_flags v) args of
        Inl code \<Rightarrow> (Exit code '''', s)
      | Inr fs \<Rightarrow>
     (let dir = str_flag fs ''dir''; addr = str_flag fs ''addr''; cert = str_flag fs ''cert''; key = str_flag fs ''key'';
          peerFP = str_flag fs ''peer-fp''; statusAddr = str_flag fs ''status'' in
      if addr = '''' \<or> cert = '''' \<or> key = '''' \<or> peerFP = '''' then (Exit 2 '''', s)
      else
     (case mkdir_all v s dir of
        (Some err, s1) \<Rightarrow> (Exit 1 '''', s1)
      | (None, s1) \<Rightarrow>
     (let allowedFPs = ParseFingerprints (v_lower v) [peerFP] in
      if length allowedFPs = 0 then (Exit 1 '''', s1)
      else
     (let tracker = NewTracker (v_now v) (str_flag fs ''name'') RoleSender (v_path v dir) (int_flag fs ''disk-warn-pct'')
            (int_flag fs ''disk-fail-pct'') (dur_flag fs ''stall-after'') 0 in
      case NewServer statusAddr cert key (str_flag fs ''status-peer-fp'') of
        Inl err \<Rightarrow> (Exit 1 '''', s1)
      | Inr statusServer \<Rightarrow>
     (case Server_Start (v_lower v) (v_load v) (v_listen v statusAddr) statusServer of
        Inl err \<Rightarrow> (Exit 1 '''', s1)
      | Inr lsn \<Rightarrow>
          (let sys = send_init s1 (v_path v dir) (int_flag fs ''max-attempts'') (dur_flag fs ''scan'') (Some tracker) in
           (Running_daemon
              \<lparr>sd_status = lsn,
               sd_pool = NewClientPool (v_path v dir) addr cert key allowedFPs (int_flag fs ''parallel'') (str_flag fs ''after''),
               sd_sys = sys\<rparr>, d_os (y_shared sys)))))))))"

definition recv_flags :: "('cert, 'key) env \<Rightarrow> (string \<times> flag) list" where
  "recv_flags v =
     [(''dir'', FStr ''incoming''), (''listen'', FStr '':9000''), (''cert'', FStr ''''), (''key'', FStr ''''), (''peer-fp'', FStr ''''),
      (''max-size'', FStr ''64GiB''), (''name'', FStr (defaultHostname v)), (''status'', FStr ''127.0.0.1:9101''),
      (''status-peer-fp'', FStr ''''), (''stale-after'', FDur 0), (''disk-warn-pct'', FInt 15), (''disk-fail-pct'', FInt 5)]"

definition runRecv :: "('cert, 'key) env \<Rightarrow> os \<Rightarrow> string list \<Rightarrow> 'cert recv_daemon outcome \<times> os" where
  "runRecv v s args =
     (case Parse v (recv_flags v) args of
        Inl code \<Rightarrow> (Exit code '''', s)
      | Inr fs \<Rightarrow>
     (let dir = str_flag fs ''dir''; lst = str_flag fs ''listen''; cert = str_flag fs ''cert''; key = str_flag fs ''key'';
          peerFP = str_flag fs ''peer-fp''; statusAddr = str_flag fs ''status'' in
      if cert = '''' \<or> key = '''' \<or> peerFP = '''' then (Exit 2 '''', s)
      else
     (case ParseByteSize (v_upper v) (v_quote v) (v_wide v) (str_flag fs ''max-size'') of
        Inl err \<Rightarrow> (Exit 1 '''', s)
      | Inr maxSize \<Rightarrow>
     (case mkdir_all v s dir of
        (Some err, s1) \<Rightarrow> (Exit 1 '''', s1)
      | (None, s1) \<Rightarrow>
     (let allowedFPs = ParseFingerprints (v_lower v) [peerFP] in
      if length allowedFPs = 0 then (Exit 1 '''', s1)
      else
     (let tracker = NewTracker (v_now v) (str_flag fs ''name'') RoleReceiver (v_path v dir) (int_flag fs ''disk-warn-pct'')
            (int_flag fs ''disk-fail-pct'') 0 (dur_flag fs ''stale-after'') in
      case NewServer statusAddr cert key (str_flag fs ''status-peer-fp'') of
        Inl err \<Rightarrow> (Exit 1 '''', s1)
      | Inr statusServer \<Rightarrow>
     (case Server_Start (v_lower v) (v_load v) (v_listen v statusAddr) statusServer of
        Inl err \<Rightarrow> (Exit 1 '''', s1)
      | Inr lsn \<Rightarrow>
     (let recvServer = NewServer_recv (v_path v dir) lst cert key allowedFPs maxSize in
      case Start_recv (v_lower v) (v_load v) (v_listen v lst) recvServer s1 of
        (Inl err, s2) \<Rightarrow> (Exit 1 '''', s2)
      | (Inr tlsCfg, s2) \<Rightarrow>
          (Running_daemon \<lparr>rd_status = lsn, rd_server = recvServer, rd_tls = tlsCfg, rd_sys = lsys_init (Some tracker)\<rparr>, s2)))))))))"

definition monitor_flags :: "(string \<times> flag) list" where
  "monitor_flags =
     [(''targets'', FStr ''''), (''cert'', FStr ''''), (''key'', FStr ''''), (''watch'', FDur (10 * second)), (''timeout'', FDur (5 * second))]"

text \<open>\<open>None\<close>: the monitor keeps polling, or it panics, as in \<open>RunMonitor\<close>.\<close>

definition runMonitor :: "('cert, 'key) env \<Rightarrow> string list \<Rightarrow> 'd outcome option" where
  "runMonitor v args =
     (case Parse v monitor_flags args of
        Inl code \<Rightarrow> Some (Exit code '''')
      | Inr fs \<Rightarrow>
     (let targets = str_flag fs ''targets''; cert = str_flag fs ''cert''; key = str_flag fs ''key'' in
      if targets = '''' \<or> cert = '''' \<or> key = '''' then Some (Exit 2 '''')
      else
        map_option (\<lambda>(out, exitCode). Exit exitCode out)
          (RunMonitor (v_lower v) (v_upper v) (v_runes v)
             (\<lambda>ts k. PollAll (\<lambda>t. PollTarget (v_lower v) (v_load v) (v_badurl v) (v_http v k) (v_decode v) t cert key) (v_order v k) ts)
             targets (dur_flag fs ''watch''))))"

text \<open>\<^verbatim>\<open>main\<close>; the first argument is the name of the program.\<close>

datatype 'cert process = Finished nat string | Sending "'cert send_daemon" | Receiving "'cert recv_daemon"

fun as_process :: "('d \<Rightarrow> 'cert process) \<Rightarrow> 'd outcome \<times> os \<Rightarrow> 'cert process \<times> os" where
  "as_process f (Exit code out, s) = (Finished code out, s)"
| "as_process f (Running_daemon d, s) = (f d, s)"

definition main :: "('cert, 'key) env \<Rightarrow> os \<Rightarrow> string list \<Rightarrow> ('cert process \<times> os) option" where
  "main v s argv =
     (case argv of
        program # subcommand # args \<Rightarrow>
          if subcommand = ''keygen'' then Some (as_process (\<lambda>_ :: unit. Finished 0 '''') (runKeygen v s args))
          else if subcommand = ''send'' then Some (as_process Sending (runSend v s args))
          else if subcommand = ''recv'' then Some (as_process Receiving (runRecv v s args))
          else if subcommand = ''monitor'' then
            map_option (\<lambda>r. as_process (\<lambda>_ :: unit. Finished 0 '''') (r, s)) (runMonitor v args)
          else if subcommand = ''-h'' \<or> subcommand = ''--help'' \<or> subcommand = ''help'' then Some (Finished 0 '''', s)
          else Some (Finished 2 '''', s)
      | _ \<Rightarrow> Some (Finished 2 '''', s))"


section \<open>Flags keep their types\<close>

lemma map_fst_update: "n \<in> fst ` set xs \<Longrightarrow> map fst (AList.update n x xs) = map fst xs"
  by (induction xs) auto

lemma same_kind_refl: "same_kind x x"
  by (cases x) simp_all

lemma same_kind_trans: "same_kind x y \<Longrightarrow> same_kind y z \<Longrightarrow> same_kind x z"
  by (cases x; cases y; cases z) simp_all

lemma SetValue_kind: "SetValue v old val = Some new \<Longrightarrow> same_kind old new"
  by (cases old) auto

definition same_kinds :: "(string \<times> flag) list \<Rightarrow> (string \<times> flag) list \<Rightarrow> bool" where
  "same_kinds fs gs \<longleftrightarrow> map fst gs = map fst fs \<and> (\<forall>n. rel_option same_kind (map_of fs n) (map_of gs n))"

lemma same_kinds_refl: "same_kinds fs fs"
  by (simp add: same_kinds_def option.rel_refl same_kind_refl)

lemma same_kinds_update:
  assumes "map_of fs n = Some old" "SetValue v old val = Some new" "same_kinds (AList.update n new fs) gs"
  shows "same_kinds fs gs"
proof -
  have "n \<in> fst ` set fs" using assms(1) by (force dest: map_of_SomeD)
  moreover have "rel_option same_kind (map_of fs k) (map_of gs k)" for k
  proof (cases "k = n")
    case True
    have "rel_option same_kind (map_of (AList.update n new fs) n) (map_of gs n)" using assms(3) by (simp only: same_kinds_def)
    then have "rel_option same_kind (Some new) (map_of gs n)" by simp
    with assms(1) True SetValue_kind [OF assms(2)] show ?thesis
      by (auto simp: option_rel_Some1 intro: same_kind_trans)
  next
    case False
    with assms(3) show ?thesis by (auto simp: same_kinds_def dest!: spec [of _ k])
  qed
  ultimately show ?thesis using assms(3) by (simp add: same_kinds_def map_fst_update)
qed

lemma Parse_kinds: "Parse v flags args = Inr fs \<Longrightarrow> same_kinds flags fs"
proof (induction v flags args rule: Parse.induct)
  case (2 v flags s args)
  show ?case
  proof (cases "flag_name s = None \<or> s = ''--''")
    case True
    with 2(3) show ?thesis by (auto simp: same_kinds_refl split: option.splits)
  next
    case False
    then obtain raw where raw: "flag_name s = Some raw" "s \<noteq> ''--''" by auto
    obtain name inline where sp: "split_flag raw = (name, inline)" by fastforce
    from 2(3) raw sp have ok: "\<not> (raw = '''' \<or> hd raw = CHR ''-'' \<or> hd raw = CHR ''='')" by (auto split: if_splits)
    with 2(3) raw sp obtain old where old: "map_of flags name = Some old" by (auto split: option.splits)
    show ?thesis
    proof (cases inline)
      case (Some val)
      with 2(3) raw sp ok old obtain new where new: "SetValue v old val = Some new" by (auto split: option.splits)
      from 2(2) [OF raw ok sp [symmetric] old Some new] 2(3) raw sp ok old Some new
      show ?thesis by (auto intro: same_kinds_update)
    next
      case None
      with 2(3) raw sp ok old obtain val args1 where args: "args = val # args1" by (auto split: list.splits)
      with 2(3) raw sp ok old None obtain new where new: "SetValue v old val = Some new" by (auto split: option.splits)
      from 2(1) [OF raw ok sp [symmetric] old None args new] 2(3) raw sp ok old None args new
      show ?thesis by (auto intro: same_kinds_update)
    qed
  qed
qed (simp add: same_kinds_refl)

section \<open>What a start does\<close>


section \<open>What a start does\<close>

lemma runSend_started:
  assumes "runSend v s args = (Running_daemon d, s')"
  obtains fs sv s1 where "Parse v (send_flags v) args = Inr fs"
    "NewServer (str_flag fs ''status'') (str_flag fs ''cert'') (str_flag fs ''key'') (str_flag fs ''status-peer-fp'') = Inr sv"
    "Server_Start (v_lower v) (v_load v) (v_listen v (str_flag fs ''status'')) sv = Inr (sd_status d)"
    "ParseFingerprints (v_lower v) [str_flag fs ''peer-fp''] \<noteq> []"
    "sd_pool d = NewClientPool (v_path v (str_flag fs ''dir'')) (str_flag fs ''addr'') (str_flag fs ''cert'') (str_flag fs ''key'')
       (ParseFingerprints (v_lower v) [str_flag fs ''peer-fp'']) (int_flag fs ''parallel'') (str_flag fs ''after'')"
    "sd_sys d = send_init s1 (v_path v (str_flag fs ''dir'')) (int_flag fs ''max-attempts'') (dur_flag fs ''scan'')
       (Some (NewTracker (v_now v) (str_flag fs ''name'') RoleSender (v_path v (str_flag fs ''dir'')) (int_flag fs ''disk-warn-pct'')
          (int_flag fs ''disk-fail-pct'') (dur_flag fs ''stall-after'') 0))"
  using assms that
  by (auto simp: runSend_def Let_def split: sum.splits prod.splits option.splits if_splits)

lemma runRecv_started:
  assumes "runRecv v s args = (Running_daemon d, s')"
  obtains fs sv sz s1 where "Parse v (recv_flags v) args = Inr fs"
    "NewServer (str_flag fs ''status'') (str_flag fs ''cert'') (str_flag fs ''key'') (str_flag fs ''status-peer-fp'') = Inr sv"
    "Server_Start (v_lower v) (v_load v) (v_listen v (str_flag fs ''status'')) sv = Inr (rd_status d)"
    "ParseFingerprints (v_lower v) [str_flag fs ''peer-fp''] \<noteq> []"
    "ParseByteSize (v_upper v) (v_quote v) (v_wide v) (str_flag fs ''max-size'') = Inr sz"
    "rd_server d = NewServer_recv (v_path v (str_flag fs ''dir'')) (str_flag fs ''listen'') (str_flag fs ''cert'') (str_flag fs ''key'')
       (ParseFingerprints (v_lower v) [str_flag fs ''peer-fp'']) sz"
    "Start_recv (v_lower v) (v_load v) (v_listen v (str_flag fs ''listen'')) (rd_server d) s1 = (Inr (rd_tls d), s')"
  using assms that
  by (auto simp: runRecv_def Let_def split: sum.splits prod.splits option.splits if_splits)

lemma runSend_refused: "runSend v s args = (Exit 2 out, s') \<Longrightarrow> s' = s"
  by (auto simp: runSend_def Let_def split: sum.splits prod.splits option.splits if_splits)

lemma runRecv_refused: "runRecv v s args = (Exit 2 out, s') \<Longrightarrow> s' = s"
  by (auto simp: runRecv_def Let_def split: sum.splits prod.splits option.splits if_splits)

lemma runKeygen_refused: "runKeygen v s args = (Exit 2 out, s') \<Longrightarrow> s' = s"
  by (auto simp: runKeygen_def Let_def split: sum.splits prod.splits option.splits if_splits)

lemma as_process_Finished:
  "as_process f r = (Finished code out, s) \<Longrightarrow>
   r = (Exit code out, s) \<or> (\<exists>d. r = (Running_daemon d, s) \<and> f d = Finished code out)"
  by (cases "(f, r)" rule: as_process.cases) auto

lemma as_process_Running:
  assumes "as_process f r = (x, s)" "\<And>code out. x \<noteq> Finished code out"
  obtains d where "r = (Running_daemon d, s)" "f d = x"
proof (cases r)
  case (Pair oc s0)
  with assms that show thesis by (cases oc) auto
qed

lemma as_process_same: "as_process f (r, s) = (x, s') \<Longrightarrow> s' = s"
  by (cases r) auto

text \<open>The status listener as it must be: on a loopback host, or for the pinned monitor only.\<close>

definition status_secure :: "(string \<Rightarrow> string) \<Rightarrow> string \<Rightarrow> 'cert listener \<Rightarrow> bool" where
  "status_secure uni fp lsn \<longleftrightarrow>
     (case lsn of
        Plain a \<Rightarrow> isLoopback (host_of a)
      | Tls a cfg \<Rightarrow> MinVersion cfg = VersionTLS13 \<and> ClientAuth cfg = RequireAnyClientCert \<and>
          (\<forall>certs. VerifyPeerCertificate cfg certs = None \<longleftrightarrow> (\<exists>der rest. certs = der # rest \<and> pinned uni [fp] der)))"

lemma started_secure:
  assumes "NewServer a cert key fp = Inr sv" "Server_Start uni load listen sv = Inr lsn"
  shows "status_secure uni fp lsn"
  using assms
  by (auto simp: NewServer_def Server_Start_def NewServerTLSConfig_def status_secure_def verify_pinned Let_def
      split: if_splits option.splits sum.splits)

lemma Start_recv_secure:
  assumes "Start_recv uni load listen sv s = (Inr cfg, s')"
  shows "MinVersion cfg = VersionTLS13 \<and> ClientAuth cfg = RequireAnyClientCert \<and>
    (\<forall>certs. VerifyPeerCertificate cfg certs = None \<longleftrightarrow>
       (\<exists>der rest. certs = der # rest \<and> pinned uni (s_allowedSenderFPs sv) der))"
  using assms
  by (auto simp: Start_recv_def NewServerTLSConfig_def verify_pinned split: prod.splits option.splits sum.splits)


section \<open>Properties\<close>

text \<open>
  C4: whatever the arguments, a daemon that runs is a pinned one. A running sender has at least one
  worker and a non-empty list of receiver fingerprints, the ones given by \<^verbatim>\<open>-peer-fp\<close>; a running
  receiver accepts TLS 1.3 clients with a certificate only, and exactly those whose fingerprint is in
  its non-empty list; and the status listener of either is on a loopback host or accepts exactly the
  monitor of \<^verbatim>\<open>-status-peer-fp\<close>. The running sender is the process of \<^verbatim>\<open>Sender_Run\<close>, the running
  receiver the server of \<^verbatim>\<open>Receiver_Server\<close>, in their initial states.
\<close>

theorem daemons_are_pinned:
  assumes "main v s argv = Some (pr, s')"
  shows "case pr of
      Finished code out \<Rightarrow> True
    | Sending d \<Rightarrow>
        (\<exists>fs s1 m i t. Parse v (send_flags v) (drop 2 argv) = Inr fs \<and>
          p_allowedReceiverFP (sd_pool d) = ParseFingerprints (v_lower v) [str_flag fs ''peer-fp''] \<and>
          p_allowedReceiverFP (sd_pool d) \<noteq> [] \<and> 1 \<le> p_parallel (sd_pool d) \<and>
          status_secure (v_lower v) (str_flag fs ''status-peer-fp'') (sd_status d) \<and>
          sd_sys d = send_init s1 (p_watchDir (sd_pool d)) m i (Some t))
    | Receiving d \<Rightarrow>
        (\<exists>fs. Parse v (recv_flags v) (drop 2 argv) = Inr fs \<and>
          s_allowedSenderFPs (rd_server d) = ParseFingerprints (v_lower v) [str_flag fs ''peer-fp''] \<and>
          s_allowedSenderFPs (rd_server d) \<noteq> [] \<and>
          status_secure (v_lower v) (str_flag fs ''status-peer-fp'') (rd_status d) \<and>
          MinVersion (rd_tls d) = VersionTLS13 \<and> ClientAuth (rd_tls d) = RequireAnyClientCert \<and>
          (\<forall>certs. VerifyPeerCertificate (rd_tls d) certs = None \<longleftrightarrow>
             (\<exists>der rest. certs = der # rest \<and> pinned (v_lower v) (s_allowedSenderFPs (rd_server d)) der)))"
proof (cases pr)
  case (Sending d)
  with assms have "as_process Sending (runSend v s (drop 2 argv)) = (Sending d, s')"
    by (auto simp: main_def split: list.splits if_splits elim: as_process.elims)
  then have "runSend v s (drop 2 argv) = (Running_daemon d, s')"
    by (rule as_process_Running) auto
  then show ?thesis
    by (rule runSend_started) (auto simp: Sending NewClientPool_def dest: started_secure)
next
  case (Receiving d)
  with assms have "as_process Receiving (runRecv v s (drop 2 argv)) = (Receiving d, s')"
    by (auto simp: main_def split: list.splits if_splits elim: as_process.elims)
  then have "runRecv v s (drop 2 argv) = (Running_daemon d, s')"
    by (rule as_process_Running) auto
  then show ?thesis
    by (rule runRecv_started) (auto simp: Receiving NewServer_recv_def dest: started_secure Start_recv_secure)
qed simp

text \<open>
  C37: a command line that is refused touches nothing. When the program exits with status 2, for an
  unknown subcommand or flag, a bad value or a missing required flag, and also when the monitor
  reports a failure, the file system is as before.
\<close>

theorem refusal_touches_nothing:
  fixes v :: "('cert, 'key) env"
  assumes "main v s argv = Some (Finished 2 out, s')"
  shows "s' = s"
proof -
  from assms consider
      "as_process (\<lambda>_ :: unit. Finished 0 '''') (runKeygen v s (drop 2 argv)) = (Finished 2 out :: 'cert process, s')"
    | "as_process Sending (runSend v s (drop 2 argv)) = (Finished 2 out :: 'cert process, s')"
    | "as_process Receiving (runRecv v s (drop 2 argv)) = (Finished 2 out :: 'cert process, s')"
    | "s' = s"
    by (auto simp: main_def split: list.splits if_splits dest!: as_process_same)
  then show ?thesis
    by cases (auto dest!: as_process_Finished runKeygen_refused runSend_refused runRecv_refused)
qed

lemma Parse_reads:
  assumes "Parse v flags args = Inr fs"
  shows "map_of flags n = Some (FStr x) \<Longrightarrow> map_of fs n = Some (FStr (str_flag fs n))"
    and "map_of flags n = Some (FInt i) \<Longrightarrow> map_of fs n = Some (FInt (int_flag fs n))"
    and "map_of flags n = Some (FDur d) \<Longrightarrow> map_of fs n = Some (FDur (dur_flag fs n))"
  using Parse_kinds [OF assms]
  by (auto simp: same_kinds_def str_flag_def int_flag_def dur_flag_def option_rel_Some1 dest!: spec [of _ n]
      elim: same_kind.elims split: flag.split)

text \<open>The flags that a subcommand reads: strings, integers and durations.\<close>

definition typed_reads :: "(string \<times> flag) list \<Rightarrow> string list \<Rightarrow> string list \<Rightarrow> string list \<Rightarrow> bool" where
  "typed_reads fs strs ints durs \<longleftrightarrow>
     list_all (\<lambda>n. map_of fs n = Some (FStr (str_flag fs n))) strs \<and>
     list_all (\<lambda>n. map_of fs n = Some (FInt (int_flag fs n))) ints \<and>
     list_all (\<lambda>n. map_of fs n = Some (FDur (dur_flag fs n))) durs"

lemma typed_readsI:
  assumes "Parse v flags args = Inr fs"
    and "list_all (\<lambda>n. \<exists>x. map_of flags n = Some (FStr x)) strs"
    and "list_all (\<lambda>n. \<exists>i. map_of flags n = Some (FInt i)) ints"
    and "list_all (\<lambda>n. \<exists>d. map_of flags n = Some (FDur d)) durs"
  shows "typed_reads fs strs ints durs"
  using assms(2-4) Parse_reads [OF assms(1)] by (auto simp: typed_reads_def list_all_iff)


section \<open>Starts\<close>

definition demo_env :: "(unit, unit) env" where
  "demo_env =
     \<lparr>v_hostname = Inr ''alpha'', v_now = 0, v_path = (\<lambda>p. [p]), v_listen = (\<lambda>_. None), v_load = (\<lambda>_ _. Inr ()),
      v_int = (\<lambda>_. Some 4), v_duration = (\<lambda>_. None), v_lower = (\<lambda>s. s), v_upper = (\<lambda>s. s), v_quote = (\<lambda>s. s), v_wide = (\<lambda>_. 0),
      v_runes = length, v_genkey = Inr (), v_serial = Inr 1, v_create = (\<lambda>_ _. Inr []), v_marshal = (\<lambda>_. Inr []), v_pem = (\<lambda>_ b. b),
      v_badurl = (\<lambda>_. None), v_http = (\<lambda>_ _ _. Inl ErrClosed), v_decode = (\<lambda>_. Inl ErrClosed), v_order = (\<lambda>_. [])\<rparr>"

definition demo_args :: "string list" where
  "demo_args = [''-addr'', ''host:1'', ''--cert=c.pem'', ''-key'', ''k.pem'', ''-peer-fp'', ''AB:cd'', ''-parallel'', ''4'']"

definition demo_flags :: "(string \<times> flag) list" where
  "demo_flags =
     [(''dir'', FStr ''outbox''), (''addr'', FStr ''host:1''), (''cert'', FStr ''c.pem''), (''key'', FStr ''k.pem''),
      (''peer-fp'', FStr ''AB:cd''), (''parallel'', FInt 4), (''after'', FStr ''archive''), (''scan'', FDur second),
      (''max-attempts'', FInt 10), (''name'', FStr ''alpha''), (''status'', FStr ''127.0.0.1:9100''), (''status-peer-fp'', FStr ''''),
      (''stall-after'', FDur (2 * minute)), (''disk-warn-pct'', FInt 15), (''disk-fail-pct'', FInt 5)]"

lemma demo_parse: "Parse demo_env (send_flags demo_env) demo_args = Inr demo_flags"
  by code_simp


theorem refusal_touches_nothing_witness:
  "main demo_env empty_os [''xport'', ''send'', ''-addr'', ''host:1''] = Some (Finished 2 '''', empty_os)"
proof -
  obtain fs where p: "Parse demo_env (send_flags demo_env) [''-addr'', ''host:1''] = Inr fs" "str_flag fs ''cert'' = ''''"
  proof
    show "Parse demo_env (send_flags demo_env) [''-addr'', ''host:1''] =
        Inr (AList.update ''addr'' (FStr ''host:1'') (send_flags demo_env))" by code_simp
  qed code_simp
  then have "main demo_env empty_os [''xport'', ''send'', ''-addr'', ''host:1''] = Some (Finished 2 '''', empty_os)"
    by (simp add: main_def runSend_def)
  with refusal_touches_nothing [OF this] show ?thesis by simp
qed

theorem daemons_are_pinned_witness:
  "\<exists>d s'. main demo_env empty_os (''xport'' # ''send'' # demo_args) = Some (Sending d, s') \<and>
    p_allowedReceiverFP (sd_pool d) = [''abcd''] \<and> status_secure (\<lambda>s. s) '''' (sd_status d)"
proof -
  have e: "o_faults empty_os = []" by (simp add: empty_os_def)
  have fl: "str_flag demo_flags ''dir'' = ''outbox''" "str_flag demo_flags ''addr'' = ''host:1''"
    "str_flag demo_flags ''cert'' = ''c.pem''" "str_flag demo_flags ''key'' = ''k.pem''"
    "str_flag demo_flags ''peer-fp'' = ''AB:cd''" "str_flag demo_flags ''status'' = ''127.0.0.1:9100''"
    "str_flag demo_flags ''status-peer-fp'' = ''''" by code_simp+
  have fp: "ParseFingerprints (v_lower demo_env) [''AB:cd''] = [''abcd'']" by code_simp
  have lo: "host_of ''127.0.0.1:9100'' = ''127.0.0.1''" by code_simp
  have env: "v_listen demo_env a = None" "v_lower demo_env = (\<lambda>s. s)" "v_path demo_env p = [p]" for a p
    by (simp_all add: demo_env_def)
  have "ent empty_os [''outbox''] = None" by code_simp
  then obtain s1 where mk: "mkdir_all demo_env empty_os ''outbox'' = (None, s1)"
    using e by (auto simp: mkdir_all_def MkdirAll_def fault_quiet env ancestors_def Let_def)
  obtain d s' where r: "runSend demo_env empty_os demo_args = (Running_daemon d, s')"
    using mk fp lo by (auto simp: runSend_def demo_parse fl NewServer_def Server_Start_def isLoopback_def env Let_def)
  then have m: "main demo_env empty_os (''xport'' # ''send'' # demo_args) = Some (Sending d, s')" by (simp add: main_def)
  from daemons_are_pinned [OF m] show ?thesis
    using m fl fp by (auto simp: demo_parse env)
qed

end
