(* ===== verification/Sender_Tracking.thy ===== *)
theory Sender_Tracking
  imports Sender_Run
begin

text \<open>
  What becomes of the files in the running sender, without any assumption on who pushes what and
  when. The strong queue invariant of \<^verbatim>\<open>Sender_Queue\<close> holds only as long as no name is pushed that a
  worker is busy with; the scanner of the program does not promise this, since a file can vanish and
  come back while it is being sent. The weaker invariant here holds in every reachable state of the
  process of \<^verbatim>\<open>Sender_Run\<close>, and it is enough to account for every item.
\<close>

section \<open>The queue under any use\<close>

text \<open>Oldest first, every indexed name is queued, and no counter has reached the limit.\<close>

definition sound_queue :: "queue \<Rightarrow> bool" where
  "sound_queue q \<longleftrightarrow> sorted (map ModTime (q_items q)) \<and> q_inQueue q \<subseteq> Filename ` set (q_items q) \<and>
     0 < q_maxAttempts q \<and> (\<forall>n. 0 \<le> attempts_of q n \<and> attempts_of q n < q_maxAttempts q)"

lemma attempts_of_simps [simp]:
  "attempts_of (q\<lparr>q_attempts := (q_attempts q)(n := None)\<rparr>) k = (if k = n then 0 else attempts_of q k)"
  "attempts_of (q\<lparr>q_attempts := (q_attempts q)(n \<mapsto> c)\<rparr>) k = (if k = n then c else attempts_of q k)"
  by (simp_all add: attempts_of_def)

lemma attempts_of_cong: "q_attempts q' = q_attempts q \<Longrightarrow> attempts_of q' = attempts_of q"
  by (simp add: attempts_of_def fun_eq_iff)

lemma sound_NewQueue: "NewQueue s wd m t = (s', q, t') \<Longrightarrow> sound_queue q"
  by (auto simp: NewQueue_def sound_queue_def attempts_of_def dest!: updateFailedCount_sel)

lemma sound_Pop:
  assumes "Pop q t = Some (r, q', t')" "sound_queue q"
  shows "sound_queue q' \<and> mset (q_items q) = (case r of None \<Rightarrow> mset (q_items q') | Some i \<Rightarrow> add_mset i (mset (q_items q')))"
  using assms
  by (auto simp: Pop_def sound_queue_def attempts_of_def Let_def split: list.splits if_splits)

lemma sound_RecordSuccess: "sound_queue q \<Longrightarrow> sound_queue (RecordSuccess q n)"
  by (auto simp: sound_queue_def RecordSuccess_def attempts_of_def)

lemma sound_Stop: "sound_queue q \<Longrightarrow> sound_queue (Stop q)"
  by (simp add: sound_queue_def Stop_def attempts_of_def)

context age_sort
begin

lemma sound_Push:
  assumes "Push srt q t item = (q', t')" "sound_queue q"
  shows "sound_queue q' \<and>
    (mset (q_items q') = add_mset item (mset (q_items q)) \<or>
     q_items q' = q_items q \<and> (q_stopped q \<or> Filename item \<in> Filename ` set (q_items q')))"
proof (cases "q_stopped q \<or> Filename item \<in> q_inQueue q")
  case True
  with assms show ?thesis by (auto simp: Push_def sound_queue_def split: if_splits)
next
  case False
  with assms have q': "q' = q\<lparr>q_items := srt (q_items q @ [item]), q_inQueue := insert (Filename item) (q_inQueue q)\<rparr>"
    by (auto simp: Push_def Let_def)
  with assms(2) show ?thesis by (auto simp: sound_queue_def srt_sorted srt_set srt_mset attempts_of_def)
qed

lemma sound_RecordFailure:
  assumes "RecordFailure srt s q t item = (b, s', q', t')" "sound_queue q"
  shows "sound_queue q' \<and>
    (if b then q_items q' = q_items q \<and> q_maxAttempts q \<le> attempts_of q (Filename item) + 1
     else mset (q_items q') = add_mset item (mset (q_items q)) \<or>
       q_items q' = q_items q \<and> Filename item \<in> Filename ` set (q_items q'))"
proof (cases b)
  case True
  with assms(1) have q': "q_items q' = q_items q" "q_inQueue q' = q_inQueue q - {Filename item}"
      "q_attempts q' = (q_attempts q)(Filename item := None)" "q_maxAttempts q' = q_maxAttempts q"
    and max: "q_maxAttempts q \<le> attempts_of q (Filename item) + 1"
    by (auto simp: RecordFailure_def Let_def split: if_splits dest!: updateFailedCount_sel)
  have "attempts_of q' k = (if k = Filename item then 0 else attempts_of q k)" for k
    using q' by (simp add: attempts_of_def)
  with True assms(2) q' max show ?thesis by (auto simp: sound_queue_def)
next
  case False
  then have small: "attempts_of q (Filename item) + 1 < q_maxAttempts q"
    using assms(1) by (auto simp: RecordFailure_def Let_def split: if_splits prod.splits)
  have att: "attempts_of q' k = (if k = Filename item then attempts_of q k + 1 else attempts_of q k)"
    and max: "q_maxAttempts q' = q_maxAttempts q" for k
    using assms(1) False by (auto simp: RecordFailure_def attempts_of_def Let_def split: if_splits)
  have "q_items q' = srt (item # q_items q) \<and> q_inQueue q' = insert (Filename item) (q_inQueue q) \<or>
      q_items q' = q_items q \<and> q_inQueue q' = q_inQueue q \<and> Filename item \<in> q_inQueue q"
    using assms(1) False by (auto simp: RecordFailure_def Let_def split: if_splits)
  with False assms(2) small att max show ?thesis
    by (auto simp: sound_queue_def srt_sorted srt_set srt_mset)
qed

end

section \<open>The items the process knows\<close>

text \<open>The item a worker is busy with, until its success or failure is recorded in the queue.\<close>

definition carried :: "wstate \<Rightarrow> FileItem multiset" where
  "carried w = (case ws_pos w of
     Got i \<Rightarrow> {#i#} | DialFailed i \<Rightarrow> {#i#} | DialCounted i \<Rightarrow> {#i#} | SendFailed i \<Rightarrow> {#i#} | SendCounted i \<Rightarrow> {#i#}
   | Acked i \<Rightarrow> {#i#} | Archived i \<Rightarrow> {#i#} | _ \<Rightarrow> {#})"

definition flight :: "ssys \<Rightarrow> FileItem multiset" where
  "flight y = (\<Sum>w \<in># mset (y_workers y). carried w)"

definition held :: "ssys \<Rightarrow> FileItem multiset" where
  "held y = mset (q_items (d_queue (y_shared y))) + flight y"

text \<open>How an item may leave: it was acknowledged, it is quarantined, or another of its name is queued.\<close>

definition released :: "sender \<Rightarrow> wstate \<Rightarrow> sender \<Rightarrow> FileItem \<Rightarrow> bool" where
  "released d w d' item \<longleftrightarrow>
     ws_pos w = Archived item \<and> delivered w item \<or>
     (ws_pos w = SendCounted item \<or> ws_pos w = DialCounted item) \<and>
       (q_maxAttempts (d_queue d) \<le> attempts_of (d_queue d) (Filename item) + 1 \<or>
        Filename item \<in> Filename ` set (q_items (d_queue d')))"

definition archived_delivered :: "wstate \<Rightarrow> bool" where
  "archived_delivered w \<longleftrightarrow> (\<forall>item. ws_pos w = Acked item \<or> ws_pos w = Archived item \<longrightarrow> delivered w item)"

lemma wstep_archived: "wstep srt p d w d' w' \<Longrightarrow> archived_delivered w \<Longrightarrow> archived_delivered w'"
  by (induction rule: wstep.induct) (auto simp: archived_delivered_def delivered_def split: if_splits)

context age_sort
begin

lemma wstep_sound: "wstep srt p d w d' w' \<Longrightarrow> sound_queue (d_queue d) \<Longrightarrow> sound_queue (d_queue d')"
  by (induction rule: wstep.induct)
     (auto simp: count_error_def complete_def intro: sound_RecordSuccess dest: sound_Pop sound_RecordFailure)

lemma wstep_held:
  assumes "wstep srt p d w d' w'" "sound_queue (d_queue d)" "archived_delivered w"
  shows "mset (q_items (d_queue d')) + carried w' = mset (q_items (d_queue d)) + carried w \<or>
    (\<exists>item. released d w d' item \<and>
       mset (q_items (d_queue d)) + carried w = add_mset item (mset (q_items (d_queue d')) + carried w'))"
  using assms(1)
proof cases
  case (dial_record item b s q t)
  with sound_RecordFailure [OF dial_record(4) assms(2)] show ?thesis
    by (cases b) (auto simp: carried_def released_def)
next
  case (send_record item b s q t)
  with sound_RecordFailure [OF send_record(4) assms(2)] show ?thesis
    by (cases b) (auto simp: carried_def released_def)
next
  case (clear item)
  with assms(3) show ?thesis by (auto simp: carried_def released_def RecordSuccess_def archived_delivered_def)
qed (use assms(2) in \<open>auto simp: carried_def count_error_def complete_def dest: sound_Pop\<close>)

end


section \<open>The process accounts for every item\<close>

inductive_cases sstep_MainE: "sstep srt p Main y z"
inductive_cases sstep_WorldE: "sstep srt p World y z"

definition track_inv :: "ssys \<Rightarrow> bool" where
  "track_inv y \<longleftrightarrow> sound_queue (d_queue (y_shared y)) \<and> list_all archived_delivered (y_workers y)"

lemma flight_update:
  assumes "k < length (y_workers y)" "y_workers z = (y_workers y)[k := w]"
  obtains F where "flight y = carried (y_workers y ! k) + F" "flight z = carried w + F"
proof -
  have "y_workers y ! k \<in># mset (y_workers y)" using assms(1) by simp
  then obtain M where M: "mset (y_workers y) = add_mset (y_workers y ! k) M" by (metis multi_member_split)
  have "mset (y_workers z) = add_mset w M" using assms M by (simp add: mset_update)
  with M show thesis by (intro that) (simp_all add: flight_def)
qed

lemma size_flight: "size (flight y) \<le> length (y_workers y)"
proof -
  have "size (carried w) \<le> 1" for w by (simp add: carried_def split: wpos.splits)
  then have "size (\<Sum>w \<in># M. carried w) \<le> size M" for M
    by (induction M) (auto simp: add_le_mono [of _ 1, simplified])
  from this [of "mset (y_workers y)"] show ?thesis by (simp add: flight_def)
qed

lemma track_inv_init: "track_inv (send_init s wd m i t)"
  by (auto simp: track_inv_def send_init_def dest: sound_NewQueue split: prod.splits)

context age_sort
begin

lemma scanstep_sound: "scanstep srt stop d sp d' sp' \<Longrightarrow> sound_queue (d_queue d) \<Longrightarrow> sound_queue (d_queue d')"
  by (induction rule: scanstep.induct) (auto dest: sound_Push)

lemma track_inv_step:
  assumes "sstep srt p a y z" "track_inv y"
  shows "track_inv z"
  using assms(1)
proof cases
  case (worker k d w)
  then have "archived_delivered (y_workers y ! k)" using assms(2) by (simp add: track_inv_def list_all_length)
  with worker wstep_archived [OF worker(4)] wstep_sound [OF worker(4)] assms(2) show ?thesis
    by (auto simp: track_inv_def list_all_iff dest!: set_update_subset_insert [THEN subsetD])
qed (use assms(2) in \<open>auto simp: track_inv_def archived_delivered_def sound_Stop dest: scanstep_sound\<close>)

lemma track_inv_reach: "(step srt p)\<^sup>*\<^sup>* (send_init s wd m i t) y \<Longrightarrow> track_inv y"
  by (induction rule: rtranclp_induct) (auto simp: step_def intro: track_inv_init track_inv_step)

lemma worker_held:
  assumes "sstep srt p a y z" "a = Worker k" "track_inv y"
  shows "held z = held y \<or>
    (\<exists>item. released (y_shared y) (y_workers y ! k) (y_shared z) item \<and> held y = add_mset item (held z))"
  using assms(1)
proof cases
  case (worker k' d w)
  then have k: "k' = k" using assms(2) by simp
  obtain F where F: "flight y = carried (y_workers y ! k) + F" "flight z = carried w + F"
    by (rule flight_update [of k y z w]) (use worker k in simp_all)
  have "sound_queue (d_queue (y_shared y))" "archived_delivered (y_workers y ! k)"
    using assms(3) worker k by (simp_all add: track_inv_def list_all_length)
  from wstep_held [OF worker(4) [unfolded k] this] worker(2) F show ?thesis
    by (auto simp: held_def ac_simps)
qed (use assms(2) in simp_all)

lemma scanner_held:
  assumes "sstep srt p a y z" "a = Scanner" "track_inv y"
  shows "case y_scan y of
      Pushing (item # items) \<Rightarrow>
        held z = add_mset item (held y) \<or>
        held z = held y \<and> (q_stopped (d_queue (y_shared y)) \<or> Filename item \<in> Filename ` set (q_items (d_queue (y_shared z))))
    | _ \<Rightarrow> held z = held y"
  using assms(1)
proof cases
  case (scan d sp)
  then have fl: "flight z = flight y" and sh: "y_shared z = d" by (simp_all add: flight_def)
  from scan(3) show ?thesis
  proof cases
    case (scan_push item q t items)
    with sound_Push [OF scan_push(4)] assms(3) fl sh show ?thesis
      by (auto simp: track_inv_def held_def)
  qed (use fl sh in \<open>auto simp: held_def\<close>)
qed (use assms(2) in simp_all)

end

lemma others_held: "sstep srt p Main y z \<Longrightarrow> held z = held y" "sstep srt p World y z \<Longrightarrow> held z = held y"
  by (auto simp: held_def flight_def carried_def Stop_def elim!: sstep_MainE sstep_WorldE)

section \<open>Properties\<close>



section \<open>A run up to a transfer\<close>

text \<open>Two scans of a directory with one stable file, and a worker that takes it.\<close>

lemma demo_scan_entries:
  "scan_entries [''out''] demo_source [(''report.csv'', Ino 0)] st {} [] =
     (demo_source, fst (scan_file [''out''] ''report.csv'' 3 1 st), {''report.csv''}, snd (scan_file [''out''] ''report.csv'' 3 1 st))"
proof -
  have v: "ValidateFilename ''report.csv'' = None" "\<not> HasPrefix ''report.csv'' ''.''" by code_simp+
  have "ent demo_source [''out'', ''report.csv''] = Some (Ino 0)" by code_simp
  moreover have "o_faults demo_source = []" "i_data (inode_of demo_source 0) = [1, 2, 3]" "i_mtime (inode_of demo_source 0) = 1"
    by (simp_all add: demo_source_def inode_of_def)
  ultimately have "Lstat demo_source [''out'', ''report.csv''] = (Inr (3, 1), demo_source)"
    by (simp add: Lstat_def fault_quiet)
  with v show ?thesis by (simp split: prod.splits)
qed

lemma demo_readdir: "ReadDir demo_source [''out''] = (Inr [(''report.csv'', Ino 0)], demo_source)"
proof -
  have "names_in demo_source [''out''] = [''report.csv'']" "is_dir demo_source [''out'']"
    "ent demo_source [''out'', ''report.csv''] = Some (Ino 0)" by code_simp+
  moreover have "o_faults demo_source = []" by (simp add: demo_source_def)
  ultimately show ?thesis by (simp add: ReadDir_def fault_quiet)
qed

definition demo_seen :: "int \<Rightarrow> bool \<Rightarrow> string \<rightharpoonup> fileScanState" where
  "demo_seen n b = [''report.csv'' \<mapsto> \<lparr>f_size = 3, f_modTime = 1, f_consecutiveScans = n, f_isQueued = b\<rparr>]"

lemma demo_scans:
  "scan_file [''out''] ''report.csv'' 3 1 Map.empty = (demo_seen 1 False, [])"
  "scan_file [''out''] ''report.csv'' 3 1 (demo_seen 1 False) = (demo_seen 2 True, [demo_item])"
  "demo_seen n b |` {''report.csv''} = demo_seen n b"
  by (auto simp: scan_file_def demo_seen_def demo_item_def Let_def restrict_map_def)

text \<open>The state at each point of the run: scan position, scanner states, queue, workers.\<close>

definition demo_at :: "scanpos \<Rightarrow> (string \<rightharpoonup> fileScanState) \<Rightarrow> FileItem list \<Rightarrow> wstate list \<Rightarrow> ssys" where
  "demo_at sp states items ws =
     \<lparr>y_shared = \<lparr>d_os = demo_source,
        d_queue = \<lparr>q_watchDir = [''out''], q_maxAttempts = 3, q_items = items, q_inQueue = Filename ` set items,
          q_attempts = Map.empty, q_failedCount = 0, q_stopped = False\<rparr>,
        d_scanner = Some \<lparr>sc_watchDir = [''out''], sc_interval = 1, sc_states = states\<rparr>, d_tracker = None,
        d_stopCh = False, d_ctxDone = False\<rparr>,
      y_workers = ws, y_scan = sp, y_scanStop = False, y_main = Starting, y_wg = int (length ws)\<rparr>"

lemma demo_start_at: "demo_start = demo_at ScanDue Map.empty [] []"
proof -
  have "ReadDir demo_source [''out'', ''.failed''] = (Inl (PathError ''open'' [''out'', ''.failed''] ENOENT), demo_source)"
  proof -
    have "\<not> is_dir demo_source [''out'', ''.failed'']" by code_simp
    moreover have "o_faults demo_source = []" by (simp add: demo_source_def)
    ultimately show ?thesis by (simp add: ReadDir_def fault_quiet)
  qed
  then show ?thesis
    by (simp add: demo_start_def demo_at_def send_init_def NewQueue_def updateFailedCount_def failedDir_def set_counts_def NewScanner_def)
qed

lemma demo_scan_run:
  assumes "scan_file [''out''] ''report.csv'' 3 1 st = (demo_seen n b, items)"
  shows "(step (sort_key ModTime) p)\<^sup>*\<^sup>* (demo_at ScanDue st [] ws) (demo_at (Pushing (sort_key ModTime items)) (demo_seen n b) [] ws)"
proof -
  let ?srt = "sort_key ModTime"
  let ?y1 = "demo_at ScanDue st [] ws" and ?l = "[(''report.csv'', Ino 0)]"
  let ?y2 = "demo_at (Listing ?l) st [] ws" and ?y3 = "demo_at (Pushing (?srt items)) (demo_seen n b) [] ws"
  have "scanstep ?srt (y_scanStop ?y1) (y_shared ?y1) (y_scan ?y1) (y_shared ?y2) (y_scan ?y2)"
    using scan_list [of "y_shared ?y1" "\<lparr>sc_watchDir = [''out''], sc_interval = 1, sc_states = st\<rparr>" "Inr ?l" demo_source]
      demo_readdir by (simp add: demo_at_def)
  from scan [OF this] have 1: "sstep ?srt p Scanner ?y1 ?y2" by (simp add: demo_at_def)
  have "scanstep ?srt (y_scanStop ?y2) (y_shared ?y2) (y_scan ?y2) (y_shared ?y3) (y_scan ?y3)"
    using scan_states [of "y_shared ?y2" "\<lparr>sc_watchDir = [''out''], sc_interval = 1, sc_states = st\<rparr>" ?l demo_source
        "demo_seen n b" "{''report.csv''}" items] demo_scan_entries [of st] assms demo_scans(3)
    by (simp add: demo_at_def)
  from scan [OF this] have 2: "sstep ?srt p Scanner ?y2 ?y3" by (simp add: demo_at_def)
  show ?thesis by (rule step_more [OF step_more [OF rtranclp.rtrancl_refl 1] 2])
qed


lemma demo_waits:
  "(step srt p)\<^sup>*\<^sup>* (demo_at (Pushing []) st items ws) (demo_at ScanDue st items ws)"
proof -
  have 1: "sstep srt p Scanner (demo_at (Pushing []) st items ws) (demo_at Ticking st items ws)"
    using scan [of srt "demo_at (Pushing []) st items ws" "y_shared (demo_at (Pushing []) st items ws)" Ticking p]
    by (simp add: demo_at_def scan_end)
  have 2: "sstep srt p Scanner (demo_at Ticking st items ws) (demo_at ScanDue st items ws)"
    using scan [of srt "demo_at Ticking st items ws" "y_shared (demo_at Ticking st items ws)" ScanDue p]
    by (simp add: demo_at_def scan_tick)
  show ?thesis by (rule step_more [OF step_more [OF rtranclp.rtrancl_refl 1] 2])
qed

lemma demo_push:
  "sstep (sort_key ModTime) p Scanner (demo_at (Pushing [demo_item]) st [] ws) (demo_at (Pushing []) st [demo_item] ws)"
proof -
  let ?y = "demo_at (Pushing [demo_item]) st [] ws" and ?z = "demo_at (Pushing []) st [demo_item] ws"
  have "scanstep (sort_key ModTime) (y_scanStop ?y) (y_shared ?y) (y_scan ?y) (y_shared ?z) (y_scan ?z)"
    using scan_push [of "sort_key ModTime" "y_shared ?y" demo_item "d_queue (y_shared ?z)" None]
    by (simp add: demo_at_def Push_def set_counts_def Let_def)
  from scan [OF this] show ?thesis by (simp add: demo_at_def)
qed

lemma demo_taken:
  "\<exists>y. (step (sort_key ModTime) strand_pool)\<^sup>*\<^sup>* demo_start y \<and> y_workers y = [\<lparr>ws_pos = Got demo_item, ws_conn = None\<rparr>] \<and>
    q_items (d_queue (y_shared y)) = []"
proof -
  let ?srt = "sort_key ModTime" and ?p = strand_pool and ?w = "\<lambda>ps. \<lparr>ws_pos = ps, ws_conn = None :: conn option\<rparr>"
  let ?y = "\<lambda>ws. demo_at (Pushing []) (demo_seen 2 True) [demo_item] ws"
  have 1: "(step ?srt ?p)\<^sup>*\<^sup>* demo_start (demo_at (Pushing []) (demo_seen 1 False) [] [])"
    using demo_scan_run [OF demo_scans(1), of ?p "[]"] by (simp add: demo_start_at)
  have 2: "(step ?srt ?p)\<^sup>*\<^sup>* (demo_at ScanDue (demo_seen 1 False) [] []) (demo_at (Pushing [demo_item]) (demo_seen 2 True) [] [])"
    using demo_scan_run [OF demo_scans(2), of ?p "[]"] by simp
  have 3: "(step ?srt ?p)\<^sup>*\<^sup>* demo_start (?y [])"
    by (rule step_more [OF rtranclp_trans [OF rtranclp_trans [OF 1 demo_waits] 2] demo_push])
  have 4: "sstep ?srt ?p Main (?y []) (?y [?w LoopTop])"
    using spawn [of "?y []" ?p ?srt] by (simp add: demo_at_def demo_pool)
  have "wstep ?srt ?p (y_shared (?y [?w LoopTop])) (?w LoopTop) (y_shared (?y [?w Popping])) (?w Popping)"
    using check_go [of "?w LoopTop" "y_shared (?y [?w LoopTop])" ?srt ?p] by (simp add: demo_at_def)
  with worker [of 0 "?y [?w LoopTop]" ?srt ?p "y_shared (?y [?w Popping])" "?w Popping"]
  have 5: "sstep ?srt ?p (Worker 0) (?y [?w LoopTop]) (?y [?w Popping])" by (simp add: demo_at_def)
  have "Pop (d_queue (y_shared (?y [?w Popping]))) (d_tracker (y_shared (?y [?w Popping]))) =
      Some (Some demo_item, (d_queue (y_shared (?y [?w Popping])))\<lparr>q_items := [], q_inQueue := {}\<rparr>, None)"
    by (simp add: Pop_def demo_at_def set_counts_def Let_def)
  from pop [OF _ this, of "?w Popping"] worker [of 0 "?y [?w Popping]" ?srt ?p _ "?w (Got demo_item)"]
  obtain y where 6: "sstep ?srt ?p (Worker 0) (?y [?w Popping]) y" "y_workers y = [?w (Got demo_item)]"
      "q_items (d_queue (y_shared y)) = []"
    by (force simp: demo_at_def)
  from step_more [OF step_more [OF step_more [OF 3 4] 5] 6(1)] 6(2,3) show ?thesis by blast
qed


end
