(* ===== verification/Wire_Props.thy ===== *)
theory Wire_Props
  imports Receiver_Laws Sender_Client
begin

text \<open>
  What the two ends of a connection understand of each other: the functions that write a header, a
  payload or a response and the functions that read them, on the connections of both sides. The
  readers' and writers' lemmas come from the interpretations of the locales of \<^verbatim>\<open>Go_IO\<close> and
  \<^verbatim>\<open>Wire\<close> on connections and files.
\<close>

section \<open>What is written\<close>

lemma ack_written: "WriteAck (DeadlineConn_Write \<tau>) c = (None, c') \<Longrightarrow> c_sent c' = c_sent c @ [AckByte]"
  by (auto simp: WriteAck_def split: prod.splits dest: timed_w.write_ok)

lemma nack_written: "WriteNack (DeadlineConn_Write \<tau>) c msg = (None, c') \<Longrightarrow> c_sent c' = c_sent c @ nack_frame msg"
  by (auto simp: WriteNack_def split: prod.splits dest: timed_w.write_ok)

section \<open>Properties\<close>

text \<open>
  C11: headers survive the wire. Whatever header \<^verbatim>\<open>WriteRequestHeader\<close> has sent completely, a
  connection that delivers these bytes makes \<^verbatim>\<open>ReadRequestHeader\<close> return the same name and size,
  when the size is allowed, and leaves exactly the bytes after the header to be read.
\<close>

theorem header_roundtrip:
  assumes "WriteRequestHeader (DeadlineConn_Write \<tau>) c name sz = (None, c')" "c_sent c' = c_sent c @ h"
    and "conn_stream 0 r = (h @ rest, e)" "maxSize = 0 \<or> sz \<le> maxSize"
  shows "\<exists>r'. ReadRequestHeader conn_Read r maxSize = Some (name, sz, None, r') \<and> conn_stream 0 r' = (rest, e)"
proof -
  from WriteRequestHeader_sent [OF assms(1)] assms(2)
  have v: "ValidateFilename name = None" and h: "h = header_bytes name sz" by simp_all
  show ?thesis
    by (rule bare.ReadRequestHeader_complete [OF assms(3) [unfolded h] v])
       (use assms(4) in \<open>auto simp: size_allowed_def\<close>)
qed

text \<open>
  C10: payloads survive the wire, and damage is noticed. After \<^verbatim>\<open>SendStream\<close> has sent a file, a
  connection that delivers these bytes makes \<^verbatim>\<open>ReceiveStream\<close> append exactly the file's bytes to
  the staged file and succeed. If it delivers any other bytes of the same length, the call succeeds
  only if their last 32 bytes are the SHA-256 digest of the others, and otherwise reports a checksum
  mismatch.
\<close>

theorem payload_roundtrip:
  assumes "SendStream (DeadlineConn_Write \<tau>) File_Read c f sz = Some (chk, None, f', c')" "c_sent c' = c_sent c @ b"
    and "0 < buf" "length (fst f) < 2 ^ 63" "file_room s (length (fst f))"
    and "length b' = length b" "conn_stream \<tau>' r = (b' @ rest, e)"
  shows "(b' = b \<longrightarrow> (\<exists>r' s'. ReceiveStream buf (File_Write i) (DeadlineConn_Read \<tau>') s r sz = Some (None, r', s') \<and>
      conn_stream \<tau>' r' = (rest, e) \<and> file_data i s' = file_data i s @ fst f)) \<and>
    (\<exists>res r' s'. ReceiveStream buf (File_Write i) (DeadlineConn_Read \<tau>') s r sz = Some (res, r', s') \<and>
      res = (if drop (unat sz) b' = sha256 (take (unat sz) b') then None else Some ErrChecksumMismatch))"
proof -
  from send.SendStream_sound [OF assms(1)] assms(2)
  have sz: "sz = of_nat (length (fst f))" and b: "b = fst f @ sha256 (fst f)" by auto
  have u: "unat sz = length (fst f)" using assms(4) by (simp add: sz unat_of_nat_u64)
  let ?p = "take (unat sz) b'" and ?t = "drop (unat sz) b'"
  have lp: "length ?p = length (fst f)" and lt: "length ?t = HashSize"
    using assms(6) u by (simp_all add: b HashSize_def)
  have st: "conn_stream \<tau>' r = (?p @ ?t @ rest, e)" using assms(7) by simp
  have szp: "sz = of_nat (length ?p)" by (subst lp) (rule sz)
  note len = assms(4) [folded lp] and room = assms(5) [folded lp]
  have ok: "\<exists>r' s'. ReceiveStream buf (File_Write i) (DeadlineConn_Read \<tau>') s r sz = Some (None, r', s') \<and>
      conn_stream \<tau>' r' = (rest, e) \<and> file_data i s' = file_data i s @ ?p" if "?t = sha256 ?p"
    by (rule recv.ReceiveStream_complete [OF assms(3) st [unfolded that] szp len room]) blast
  moreover have "\<exists>r' s'. ReceiveStream buf (File_Write i) (DeadlineConn_Read \<tau>') s r sz = Some (Some ErrChecksumMismatch, r', s')"
    if "?t \<noteq> sha256 ?p"
    by (rule recv.ReceiveStream_corrupt [OF assms(3) st lt that szp len room]) blast
  moreover have "?t = sha256 ?p \<and> ?p = fst f" if "b' = b" using that u by (simp add: b)
  ultimately show ?thesis by (cases "?t = sha256 ?p") fastforce+
qed

text \<open>
  C30: responses survive the wire. An ACK is read as success and a NACK as the error with the
  receiver's message, cut to 65535 bytes; both leave exactly what follows them.
\<close>

theorem response_roundtrip:
  assumes "conn_stream \<tau>' r = (b @ rest, e)" "c_sent c' = c_sent c @ b"
  shows "(WriteAck (DeadlineConn_Write \<tau>) c = (None, c') \<longrightarrow>
      (\<exists>r'. ReadResponse (DeadlineConn_Read \<tau>') r = Some (None, r') \<and> conn_stream \<tau>' r' = (rest, e))) \<and>
    (WriteNack (DeadlineConn_Write \<tau>) c msg = (None, c') \<longrightarrow>
      (\<exists>r'. ReadResponse (DeadlineConn_Read \<tau>') r = Some (Some (New (''receiver nack: '' @ take 65535 msg)), r') \<and>
        conn_stream \<tau>' r' = (rest, e)))"
proof (intro conjI impI)
  assume "WriteAck (DeadlineConn_Write \<tau>) c = (None, c')"
  with assms ack_written have "conn_stream \<tau>' r = (AckByte # rest, e)" by fastforce
  then show "\<exists>r'. ReadResponse (DeadlineConn_Read \<tau>') r = Some (None, r') \<and> conn_stream \<tau>' r' = (rest, e)"
    by (rule timed.ReadResponse_ack) blast
next
  assume "WriteNack (DeadlineConn_Write \<tau>) c msg = (None, c')"
  with assms nack_written have "conn_stream \<tau>' r = (nack_frame msg @ rest, e)" by fastforce
  then show "\<exists>r'. ReadResponse (DeadlineConn_Read \<tau>') r = Some (Some (New (''receiver nack: '' @ take 65535 msg)), r') \<and>
      conn_stream \<tau>' r' = (rest, e)"
    by (rule timed.ReadResponse_nack) blast
qed

text \<open>
  C39: a sender that dies inside a header is not always noticed. When the connection ends cleanly
  after \<open>k\<close> bytes of a header, the handler counts an error and closes, except when \<open>k\<close> is one of
  the four positions where a field begins: there the read reports a plain \<^verbatim>\<open>io.EOF\<close>, and the handler
  takes a header that was cut short for a regular end of the session, without an error and without a
  NACK. In no case is a file staged.
\<close>

theorem cut_header_may_go_unreported:
  assumes "ValidateFilename name = None" "k < 14 + length name" "\<not> expired (s_stop sv) (c_clock c)"
    and "conn_stream 0 (SetReadDeadline c (c_clock c + ReceiverIdleTimeout)) = (take k (header_bytes name sz), EOF)"
  shows "\<exists>c' t'. handle_request sv s c t = Some (False, s, c', t') \<and>
    (if k \<in> {0, 4, 6, 6 + length name} then t' = t \<and> c_sent c' = c_sent c
     else t' = map_option (Tracker_RecordError (c_clock c')) t)"
proof -
  let ?c = "SetReadDeadline c (c_clock c + ReceiverIdleTimeout)"
  obtain c1 where r: "ReadRequestHeader conn_Read ?c (s_maxSize sv) =
      Some ('''', 0, Some (if k \<in> {0, 4, 6, 6 + length name} then EOF else ErrUnexpectedEOF), c1)"
    using bare.ReadRequestHeader_truncated [OF assms(4,2,1)] by blast
  have "conn_frame c1 = conn_frame ?c"
    using r bare.ReadRequestHeader_returns [of ?c "s_maxSize sv"] by auto
  then have sent: "c_sent c1 = c_sent c" by (simp add: conn_frame_def SetReadDeadline_def)
  show ?thesis
  proof (cases "k \<in> {0, 4, 6, 6 + length name}")
    case True
    with r sent assms(3) show ?thesis by (simp add: handle_request_def)
  next
    case False
    have "\<not> errors_Is ErrUnexpectedEOF EOF" "\<not> errors_Is ErrUnexpectedEOF ErrClosed" "\<not> is_timeout ErrUnexpectedEOF"
      by code_simp+
    with False r assms(3) show ?thesis by (simp add: handle_request_def nack_close_def Let_def)
  qed
qed

section \<open>Witnesses\<close>

text \<open>A connection that delivers given bytes at once and then ends, and accepts whatever is written.\<close>

definition feed :: "byte list \<Rightarrow> conn" where
  "feed bs = \<lparr>c_clock = 0, c_rdeadline = None, c_wdeadline = None, c_in = [(0, bs)], c_end = (0, EOF),
     c_sent = [], c_wbudget = None, c_werr = ErrClosed, c_addr = ''peer''\<rparr>"

lemma feed_stream: "bs \<noteq> [] \<Longrightarrow> conn_stream 0 (feed bs) = (bs, EOF)" "bs \<noteq> [] \<Longrightarrow> conn_stream 1 (feed bs) = (bs, EOF)"
  by (simp_all add: conn_stream_def feed_def expired_def)

lemma feed_write: "DeadlineConn_Write 1 (feed []) bs = (length bs, None, (SetWriteDeadline (feed []) 1)\<lparr>c_sent := bs\<rparr>)"
  by (simp add: DeadlineConn_Write_def conn_Write_def SetWriteDeadline_def feed_def expired_def)

definition demo_cut_server :: server where
  "demo_cut_server = \<lparr>s_incomingDir = [''in''], s_listenAddr = '':9000'', s_certFile = ''c.pem'', s_keyFile = ''k.pem'',
     s_allowedSenderFPs = [''ab''], s_maxSize = 100, s_stop = None\<rparr>"

lemma report_valid: "ValidateFilename ''report.csv'' = None"
  by code_simp

theorem header_roundtrip_witness:
  "\<exists>r'. ReadRequestHeader conn_Read (feed (header_bytes ''report.csv'' 3)) 10 = Some (''report.csv'', 3, None, r') \<and>
    conn_stream 0 r' = ([], EOF)"
proof -
  let ?h = "header_bytes ''report.csv'' 3"
  have w: "WriteRequestHeader (DeadlineConn_Write 1) (feed []) ''report.csv'' 3 =
      (None, (SetWriteDeadline (feed []) 1)\<lparr>c_sent := ?h\<rparr>)"
    by (simp add: WriteRequestHeader_valid report_valid feed_write)
  have "?h \<noteq> []" by (simp add: header_bytes_def MagicBytes_def)
  from header_roundtrip [OF w, of ?h "feed ?h" "[]" EOF 10] feed_stream(1) [OF this]
  show ?thesis by (simp add: feed_def)
qed

theorem response_roundtrip_witness:
  "\<exists>r'. ReadResponse (DeadlineConn_Read 1) (feed (nack_frame ''no'')) = Some (Some (New ''receiver nack: no''), r') \<and>
    conn_stream 1 r' = ([], EOF)"
proof -
  have "nack_frame ''no'' \<noteq> []" by (simp add: nack_frame_def Let_def)
  moreover have "WriteNack (DeadlineConn_Write 1) (feed []) ''no'' =
      (None, (SetWriteDeadline (feed []) 1)\<lparr>c_sent := nack_frame ''no''\<rparr>)"
    by (simp add: WriteNack_def feed_write)
  ultimately show ?thesis
    using response_roundtrip [of 1 "feed (nack_frame ''no'')" "nack_frame ''no''" "[]" EOF
        "(SetWriteDeadline (feed []) 1)\<lparr>c_sent := nack_frame ''no''\<rparr>" "feed []" 1 "''no''"]
    by (simp add: feed_stream(2)) (simp add: feed_def)
qed

theorem payload_roundtrip_witness:
  "\<exists>r' s'. ReceiveStream 4 (File_Write 0) (DeadlineConn_Read 1) demo_source (feed ([7, 8] @ sha256 [7, 8])) 2 =
      Some (None, r', s') \<and> file_data 0 s' = file_data 0 demo_source @ [7, 8]"
proof -
  have sz: "of_nat (length [7 :: byte, 8]) = (2 :: u64)" by simp
  have room: "timed_room 1 (feed []) (length [7 :: byte, 8] + HashSize)"
    by (simp add: timed_room_def conn_room_def feed_def SetWriteDeadline_def expired_def)
  obtain f' c' where w: "SendStream (DeadlineConn_Write 1) File_Read (feed []) ([7, 8], EOF) 2 = Some (sha256 [7, 8], None, f', c')"
    and sent: "c_sent c' = c_sent (feed []) @ [7, 8] @ sha256 [7, 8]"
    by (rule send.SendStream_complete [OF refl sz room]) (rule that)
  have fr: "file_room demo_source (length (fst ([7 :: byte, 8], EOF)))" by (simp add: file_room_def demo_source_def)
  have "conn_stream 1 (feed ([7, 8] @ sha256 [7, 8])) = (([7, 8] @ sha256 [7, 8]) @ [], EOF)" by (simp add: feed_stream(2))
  from payload_roundtrip [OF w sent _ _ fr refl this, of 4 0] show ?thesis by auto
qed

theorem cut_header_may_go_unreported_witness:
  "\<exists>c'. handle_request demo_cut_server demo_source (feed MagicBytes) None = Some (False, demo_source, c', None) \<and> c_sent c' = []"
proof -
  have "conn_stream 0 (SetReadDeadline (feed MagicBytes) (c_clock (feed MagicBytes) + ReceiverIdleTimeout)) =
      (take 4 (header_bytes ''report.csv'' 3), EOF)"
    by (simp add: conn_stream_def feed_def expired_def SetReadDeadline_def ReceiverIdleTimeout_def second_def header_bytes_def)
  from cut_header_may_go_unreported [OF report_valid _ _ this, of demo_cut_server demo_source None]
  show ?thesis by (simp add: demo_cut_server_def expired_def feed_def)
qed

end
